theory Spec2Isabelle
  imports Main "HOL-Library.AList"
begin

section \<open>The scheduler of \<open>agent/core/scheduler.py\<close>\<close>

text \<open>
  A shallow embedding of \<open>SchedulerModule\<close>: the task store, the dispatcher
  (\<open>_execute_task\<close>), the event bus (\<open>emit_event\<close>), the workflow engine
  (\<open>run_workflow\<close>) and the snapshot serialisation (\<open>to_dict\<close>, \<open>from_dict\<close>).

  Conventions.
  \<^item> Python dictionaries that hold data are association lists with Python's insertion
    order: a lookup is \<open>map_of\<close>, an assignment \<open>d[k] = v\<close> is \<open>AList.update\<close>,
    \<open>d.pop(k)\<close> is \<open>AList.delete\<close>, the mutation of the object stored under a key is
    \<open>AList.map_entry\<close>.
  \<^item> \<open>datetime.now()\<close> reads the field \<open>clock\<close> of the state (seconds, an integer);
    \<open>asyncio.sleep(d)\<close> advances it.
  \<^item> An action handler is a function from the keyword arguments to either the text of
    the exception it raises (\<open>Inl\<close>) or the value it returns (\<open>Inr\<close>).
  \<^item> The calls of action handlers and the suspensions are recorded, in order, in the
    field \<open>trace\<close>.
  \<^item> The recursion of \<open>_execute_task\<close> (dependencies, retries) and the loop of
    \<open>run_workflow\<close> need not end; they take a fuel argument, and \<open>None\<close> stands for
    a run that did not return within the fuel.
  \<^item> Writing the snapshot file is taken to succeed; the written snapshot is the
    field \<open>disk\<close>. Logging is left out.
\<close>

subsection \<open>Data model\<close>

datatype TaskStatus = PENDING | RUNNING | COMPLETED | FAILED | CANCELLED

datatype TriggerType = CRON | INTERVAL | DATE | EVENT | CONDITION | STARTUP

text \<open>Values of Python's \<open>Any\<close> that the engine stores and compares.\<close>

datatype pyval = PNone | PBool bool | PInt int | PStr string

type_synonym pydict = "(string \<times> pyval) list"

datatype exn =
    KeyError string
  | ValueError string
  | AttributeError string
  | IndexError string

datatype 'a outcome = Raised exn | Returned 'a

record TaskResult =
  task_id :: string
  status :: TaskStatus
  start_time :: int
  end_time :: "int option"
  result :: pyval
  error :: "string option"
  duration :: int

record ScheduledTask =
  id' :: string
  name :: string
  description :: string
  trigger_type :: TriggerType
  trigger_config :: pydict
  action :: string
  action_params :: pydict
  enabled :: bool
  created_at :: int
  last_run :: "int option"
  next_run :: "int option"
  run_count :: int
  max_runs :: "int option"
  retry_on_fail :: bool
  retry_count :: int
  retry_delay :: int
  tags :: "string list"
  dependencies :: "string list"

text \<open>
  A workflow step is a dictionary read with \<open>step.get\<close>: each of its four keys may be
  absent (\<open>None\<close>).
\<close>

record WorkflowStep =
  step_task_id :: "string option"
  on_success :: "pyval option"
  on_failure :: "pyval option"
  step_name :: "pyval option"

record Workflow =
  wf_id :: string
  wf_name :: string
  wf_description :: string
  steps :: "WorkflowStep list"
  wf_enabled :: bool
  wf_created_at :: int

subsection \<open>Serialisation: \<open>to_dict\<close> and \<open>from_dict\<close>\<close>

text \<open>
  The string that \<open>datetime.isoformat\<close> produces is represented by the time it
  denotes; any other string in a time field is \<open>NotIso\<close>. The library's
  \<open>fromisoformat\<close> inverts \<open>isoformat\<close> and raises \<open>ValueError\<close> otherwise.
\<close>

datatype isostring = IsoFormat int | NotIso string

definition isoformat :: "int \<Rightarrow> isostring" where
  "isoformat t = IsoFormat t"

fun fromisoformat :: "isostring \<Rightarrow> exn + int" where
  "fromisoformat (IsoFormat t) = Inr t"
| "fromisoformat (NotIso s) = Inl (ValueError s)"

fun iso_truthy :: "isostring \<Rightarrow> bool" where
  "iso_truthy (IsoFormat t) = True"
| "iso_truthy (NotIso s) = (s \<noteq> [])"

text \<open>
  The dictionary of one task in the snapshot. A field is \<open>None\<close> when the key is
  absent; for \<open>last_run\<close> and \<open>max_runs\<close>, which \<open>from_dict\<close> reads with
  \<open>data.get\<close>, \<open>None\<close> is also the JSON \<open>null\<close> that \<open>to_dict\<close> writes.
\<close>

record task_dict =
  d_id :: "string option"
  d_name :: "string option"
  d_description :: "string option"
  d_trigger_type :: "string option"
  d_trigger_config :: "pydict option"
  d_action :: "string option"
  d_action_params :: "pydict option"
  d_enabled :: "bool option"
  d_created_at :: "isostring option"
  d_last_run :: "isostring option"
  d_run_count :: "int option"
  d_max_runs :: "int option"
  d_tags :: "string list option"
  d_dependencies :: "string list option"

fun trigger_value :: "TriggerType \<Rightarrow> string" where
  "trigger_value CRON = ''cron''"
| "trigger_value INTERVAL = ''interval''"
| "trigger_value DATE = ''date''"
| "trigger_value EVENT = ''event''"
| "trigger_value CONDITION = ''condition''"
| "trigger_value STARTUP = ''startup''"

definition trigger_of_value :: "string \<Rightarrow> exn + TriggerType" where
  "trigger_of_value v =
     (if v = ''cron'' then Inr CRON
      else if v = ''interval'' then Inr INTERVAL
      else if v = ''date'' then Inr DATE
      else if v = ''event'' then Inr EVENT
      else if v = ''condition'' then Inr CONDITION
      else if v = ''startup'' then Inr STARTUP
      else Inl (ValueError v))"

definition to_dict :: "ScheduledTask \<Rightarrow> task_dict" where
  "to_dict t =
     \<lparr> d_id = Some (id' t),
       d_name = Some (name t),
       d_description = Some (description t),
       d_trigger_type = Some (trigger_value (trigger_type t)),
       d_trigger_config = Some (trigger_config t),
       d_action = Some (action t),
       d_action_params = Some (action_params t),
       d_enabled = Some (enabled t),
       d_created_at = Some (isoformat (created_at t)),
       d_last_run = (case last_run t of None \<Rightarrow> None | Some lr \<Rightarrow> Some (isoformat lr)),
       d_run_count = Some (run_count t),
       d_max_runs = max_runs t,
       d_tags = Some (tags t),
       d_dependencies = Some (dependencies t) \<rparr>"

text \<open>\<open>data[key]\<close>: a missing key raises \<open>KeyError\<close>.\<close>

definition subscript :: "string \<Rightarrow> 'a option \<Rightarrow> exn + 'a" where
  "subscript key v = (case v of None \<Rightarrow> Inl (KeyError key) | Some x \<Rightarrow> Inr x)"

definition bind_exn :: "exn + 'a \<Rightarrow> ('a \<Rightarrow> exn + 'b) \<Rightarrow> exn + 'b" where
  "bind_exn m f = (case m of Inl e \<Rightarrow> Inl e | Inr x \<Rightarrow> f x)"

text \<open>
  \<open>from_dict\<close> evaluates the constructor's arguments in the order written; the first
  one that raises decides the exception. The fields \<open>next_run\<close>, \<open>retry_on_fail\<close>,
  \<open>retry_count\<close> and \<open>retry_delay\<close> are not read: they take the defaults of the
  dataclass. The first argument is the value of \<open>datetime.now()\<close>.
\<close>

definition from_dict :: "int \<Rightarrow> task_dict \<Rightarrow> exn + ScheduledTask" where
  "from_dict now d =
     bind_exn (subscript ''id'' (d_id d)) (\<lambda>i.
     bind_exn (subscript ''name'' (d_name d)) (\<lambda>n.
     bind_exn (bind_exn (subscript ''trigger_type'' (d_trigger_type d)) trigger_of_value) (\<lambda>tt.
     bind_exn (subscript ''trigger_config'' (d_trigger_config d)) (\<lambda>tc.
     bind_exn (subscript ''action'' (d_action d)) (\<lambda>a.
     bind_exn (case d_created_at d of None \<Rightarrow> Inr now | Some c \<Rightarrow> fromisoformat c) (\<lambda>ca.
     bind_exn (case d_last_run d of
                 None \<Rightarrow> Inr None
               | Some l \<Rightarrow> if iso_truthy l then map_sum (\<lambda>e. e) Some (fromisoformat l)
                           else Inr None) (\<lambda>lr.
     Inr \<lparr> id' = i,
           name = n,
           description = (case d_description d of None \<Rightarrow> [] | Some x \<Rightarrow> x),
           trigger_type = tt,
           trigger_config = tc,
           action = a,
           action_params = (case d_action_params d of None \<Rightarrow> [] | Some x \<Rightarrow> x),
           enabled = (case d_enabled d of None \<Rightarrow> True | Some x \<Rightarrow> x),
           created_at = ca,
           last_run = lr,
           next_run = None,
           run_count = (case d_run_count d of None \<Rightarrow> 0 | Some x \<Rightarrow> x),
           max_runs = d_max_runs d,
           retry_on_fail = True,
           retry_count = 3,
           retry_delay = 60,
           tags = (case d_tags d of None \<Rightarrow> [] | Some x \<Rightarrow> x),
           dependencies = (case d_dependencies d of None \<Rightarrow> [] | Some x \<Rightarrow> x) \<rparr>)))))))"

subsection \<open>The state of a \<open>SchedulerModule\<close>\<close>

type_synonym handler = "pydict \<Rightarrow> string + pyval"

datatype event = Invoke string string pydict | Sleep int

record snapshot =
  snap_tasks :: "task_dict list"
  saved_at :: isostring

record sched =
  tasks :: "(string \<times> ScheduledTask) list"
  workflows :: "(string \<times> Workflow) list"
  actions :: "string \<Rightarrow> handler option"
  event_handlers :: "(string \<times> string list) list"
  results :: "TaskResult list"
  jobs :: "string list"
  clock :: int
  trace :: "event list"
  disk :: "snapshot option"

definition get_task :: "string \<Rightarrow> sched \<Rightarrow> ScheduledTask option" where
  "get_task tid s = map_of (tasks s) tid"

definition save_tasks :: "sched \<Rightarrow> sched" where
  "save_tasks s =
     s\<lparr>disk := Some \<lparr> snap_tasks = map (\<lambda>kv. to_dict (snd kv)) (tasks s),
                       saved_at = isoformat (clock s) \<rparr>\<rparr>"

text \<open>Mutation of the task object stored under \<open>tid\<close>.\<close>

definition upd_task :: "string \<Rightarrow> (ScheduledTask \<Rightarrow> ScheduledTask) \<Rightarrow> sched \<Rightarrow> sched" where
  "upd_task tid f s = s\<lparr>tasks := AList.map_entry tid f (tasks s)\<rparr>"

text \<open>\<open>self._scheduler.remove_job(task_id)\<close>, whose exception is swallowed.\<close>

definition remove_job :: "string \<Rightarrow> sched \<Rightarrow> sched" where
  "remove_job tid s = s\<lparr>jobs := removeAll tid (jobs s)\<rparr>"

definition remove_task :: "string \<Rightarrow> sched \<Rightarrow> sched \<times> bool" where
  "remove_task tid s =
     (case map_of (tasks s) tid of
        None \<Rightarrow> (s, False)
      | Some task \<Rightarrow>
          (save_tasks (remove_job tid (s\<lparr>tasks := AList.delete tid (tasks s)\<rparr>)), True))"

definition disable_task :: "string \<Rightarrow> sched \<Rightarrow> sched \<times> bool" where
  "disable_task tid s =
     (case map_of (tasks s) tid of
        None \<Rightarrow> (s, False)
      | Some task \<Rightarrow>
          (save_tasks (remove_job tid (upd_task tid (\<lambda>t. t\<lparr>enabled := False\<rparr>) s)), True))"

text \<open>
  The job engine (APScheduler) is not part of the repository. Its part in
  \<open>_create_trigger\<close> and \<open>_schedule_task\<close> is the parameter \<open>lib\<close>: for a task
  of trigger type cron, interval or date it either raises or builds the trigger and
  gives the job's \<open>next_run_time\<close>.
\<close>

type_synonym job_engine = "ScheduledTask \<Rightarrow> int \<Rightarrow> exn + int option"

definition create_trigger :: "job_engine \<Rightarrow> int \<Rightarrow> ScheduledTask \<Rightarrow> exn + (int option) option" where
  "create_trigger lib now task =
     (if trigger_type task = CRON \<or> trigger_type task = INTERVAL \<or> trigger_type task = DATE
      then map_sum (\<lambda>e. e) Some (lib task now)
      else Inr None)"

definition schedule_task :: "job_engine \<Rightarrow> string \<Rightarrow> sched \<Rightarrow> sched \<times> unit outcome" where
  "schedule_task lib tid s =
     (case map_of (tasks s) tid of
        None \<Rightarrow> (s, Returned ())
      | Some task \<Rightarrow>
          if \<not> enabled task then (s, Returned ())
          else (case create_trigger lib (clock s) task of
                  Inl e \<Rightarrow> (s, Raised e)
                | Inr None \<Rightarrow> (s, Returned ())
                | Inr (Some nxt) \<Rightarrow>
                    (upd_task tid (\<lambda>t. t\<lparr>next_run := nxt\<rparr>)
                       (s\<lparr>jobs := tid # removeAll tid (jobs s)\<rparr>), Returned ())))"

definition enable_task :: "job_engine \<Rightarrow> string \<Rightarrow> sched \<Rightarrow> sched \<times> bool outcome" where
  "enable_task lib tid s =
     (case map_of (tasks s) tid of
        None \<Rightarrow> (s, Returned False)
      | Some task \<Rightarrow>
          (case schedule_task lib tid (upd_task tid (\<lambda>t. t\<lparr>enabled := True\<rparr>) s) of
             (s1, Raised e) \<Rightarrow> (s1, Raised e)
           | (s1, Returned u) \<Rightarrow> (save_tasks s1, Returned True)))"

subsection \<open>The dispatcher: \<open>_execute_task\<close>\<close>

text \<open>\<open>task.max_runs and task.run_count >= task.max_runs\<close>: a cap of 0 is falsy.\<close>

definition max_runs_reached :: "ScheduledTask \<Rightarrow> bool" where
  "max_runs_reached task =
     (case max_runs task of None \<Rightarrow> False | Some m \<Rightarrow> m \<noteq> 0 \<and> run_count task \<ge> m)"

text \<open>Appending to the result log, and the trimming \<open>self._results[-500:]\<close>.\<close>

definition append_result :: "TaskResult \<Rightarrow> TaskResult list \<Rightarrow> TaskResult list" where
  "append_result r rs =
     (let rs' = rs @ [r]
      in if length rs' > 1000 then drop (length rs' - 500) rs' else rs')"

definition sleep :: "int \<Rightarrow> sched \<Rightarrow> sched" where
  "sleep d s = s\<lparr>clock := clock s + max 0 d, trace := trace s @ [Sleep d]\<rparr>"

text \<open>The lines after the \<open>try\<close> statement: the result is stamped, the task updated,
  the result logged and the snapshot written.\<close>

definition finalize :: "string \<Rightarrow> int \<Rightarrow> TaskResult \<Rightarrow> sched \<Rightarrow> sched \<times> TaskResult option" where
  "finalize tid start res s =
     (let r = res\<lparr>end_time := Some (clock s), duration := clock s - start\<rparr>;
          s1 = upd_task tid (\<lambda>t. t\<lparr>last_run := Some start, run_count := run_count t + 1\<rparr>) s;
          s2 = s1\<lparr>results := append_result r (results s1)\<rparr>
      in (save_tasks s2, Some r))"

definition new_result :: "string \<Rightarrow> int \<Rightarrow> TaskResult" where
  "new_result tid start =
     \<lparr> task_id = tid, status = RUNNING, start_time = start, end_time = None,
       result = PNone, error = None, duration = 0 \<rparr>"

text \<open>
  \<open>execute_task\<close> returns the new state and what \<open>_execute_task\<close> returns: a
  \<open>TaskResult\<close>, or \<open>None\<close> after one of its two bare \<open>return\<close>s.
  \<open>run_dependencies\<close> is its \<open>for dep_id in task.dependencies\<close> loop, and
  \<open>perform_action\<close> is the rest of the body from \<open>action_func = ...\<close> on: the call
  of the handler, the \<open>except\<close> clause with the retry, and the final lines. Its
  argument \<open>start\<close> is the local \<open>start_time\<close>. It reads the task object again from
  the store, since the loop may have changed it; no operation of the dispatcher removes
  a task, so it is found there.
\<close>

fun execute_task :: "nat \<Rightarrow> string \<Rightarrow> sched \<Rightarrow> (sched \<times> TaskResult option) option"
  and run_dependencies :: "nat \<Rightarrow> string list \<Rightarrow> sched \<Rightarrow> sched option"
  and perform_action :: "nat \<Rightarrow> string \<Rightarrow> int \<Rightarrow> sched \<Rightarrow> (sched \<times> TaskResult option) option"
  where
  "execute_task 0 tid s = None"
| "execute_task (Suc n) tid s =
     (case get_task tid s of
        None \<Rightarrow> Some (s, None)
      | Some task \<Rightarrow>
          if max_runs_reached task then Some (fst (disable_task tid s), None)
          else
            (case run_dependencies n (dependencies task) s of
               None \<Rightarrow> None
             | Some s1 \<Rightarrow> perform_action n tid (clock s) s1))"
| "run_dependencies n [] s = Some s"
| "run_dependencies n (dep_id # deps) s =
     (case get_task dep_id s of
        None \<Rightarrow> run_dependencies n deps s
      | Some dep_task \<Rightarrow>
          if last_run dep_task = None
          then (case execute_task n dep_id s of
                  None \<Rightarrow> None
                | Some (s1, r) \<Rightarrow> run_dependencies n deps s1)
          else run_dependencies n deps s)"
| "perform_action n tid start s1 =
     (case get_task tid s1 of
        None \<Rightarrow> Some (s1, None)
      | Some task \<Rightarrow>
          (case actions s1 (action task) of
             None \<Rightarrow>
               Some (finalize tid start
                      ((new_result tid start)
                         \<lparr>status := FAILED,
                          error := Some (''Nieznana akcja: '' @ action task)\<rparr>) s1)
           | Some action_func \<Rightarrow>
               (case action_func (action_params task) of
                  Inr v \<Rightarrow>
                    Some (finalize tid start
                           ((new_result tid start)\<lparr>result := v, status := COMPLETED\<rparr>)
                           (s1\<lparr>trace := trace s1 @
                                [Invoke tid (action task) (action_params task)]\<rparr>))
                | Inl e \<Rightarrow>
                    if retry_on_fail task \<and> retry_count task > 0
                    then execute_task n tid
                           (sleep (retry_delay task)
                              (upd_task tid (\<lambda>t. t\<lparr>retry_count := retry_count t - 1\<rparr>)
                                 (s1\<lparr>trace := trace s1 @
                                      [Invoke tid (action task) (action_params task)]\<rparr>)))
                    else Some (finalize tid start
                                ((new_result tid start)\<lparr>status := FAILED, error := Some e\<rparr>)
                                (s1\<lparr>trace := trace s1 @
                                     [Invoke tid (action task) (action_params task)]\<rparr>)))))"

subsection \<open>The event bus\<close>

definition on_event :: "string \<Rightarrow> string \<Rightarrow> sched \<Rightarrow> sched" where
  "on_event event_name tid s =
     s\<lparr>event_handlers :=
         AList.update event_name
           ((case map_of (event_handlers s) event_name of None \<Rightarrow> [] | Some ids \<Rightarrow> ids) @ [tid])
           (event_handlers s)\<rparr>"

fun emit_loop :: "nat \<Rightarrow> string list \<Rightarrow> pyval \<Rightarrow> sched \<Rightarrow> sched option" where
  "emit_loop n [] data s = Some s"
| "emit_loop n (tid # task_ids) data s =
     (case get_task tid s of
        None \<Rightarrow> emit_loop n task_ids data s
      | Some task \<Rightarrow>
          if enabled task
          then (case execute_task n tid
                       (upd_task tid
                          (\<lambda>t. t\<lparr>action_params := AList.update ''event_data'' data (action_params t)\<rparr>) s) of
                  None \<Rightarrow> None
                | Some (s1, r) \<Rightarrow> emit_loop n task_ids data s1)
          else emit_loop n task_ids data s)"

definition emit_event :: "nat \<Rightarrow> string \<Rightarrow> pyval \<Rightarrow> sched \<Rightarrow> sched option" where
  "emit_event n event_name data s =
     emit_loop n (case map_of (event_handlers s) event_name of None \<Rightarrow> [] | Some ids \<Rightarrow> ids) data s"

subsection \<open>The workflow engine\<close>

text \<open>\<open>xs[i]\<close> with Python's negative indices.\<close>

definition py_index :: "'a list \<Rightarrow> int \<Rightarrow> exn + 'a" where
  "py_index xs i =
     (let n = int (length xs)
      in if 0 \<le> i \<and> i < n then Inr (xs ! nat i)
         else if - n \<le> i \<and> i < 0 then Inr (xs ! nat (n + i))
         else Inl (IndexError ''list index out of range''))"

text \<open>The \<open>for i, s in enumerate(workflow.steps)\<close> search, counting from \<open>i\<close>.\<close>

fun find_step :: "WorkflowStep list \<Rightarrow> pyval \<Rightarrow> nat \<Rightarrow> nat option" where
  "find_step [] x i = None"
| "find_step (st # sts) x i = (if step_name st = Some x then Some i else find_step sts x (Suc i))"

text \<open>
  The selector chain of \<open>run_workflow\<close>: \<open>None\<close> is \<open>break\<close>, \<open>Some j\<close> the new
  value of \<open>current_step\<close>. A key that is absent and a key that holds Python's
  \<open>None\<close> read alike. Python's \<open>bool\<close> is a subclass of \<open>int\<close>.
\<close>

definition select_next :: "WorkflowStep list \<Rightarrow> int \<Rightarrow> pyval option \<Rightarrow> int option" where
  "select_next sts current_step next_step =
     (if next_step = Some (PStr ''stop'') \<or> next_step = None \<or> next_step = Some PNone then None
      else if next_step = Some (PStr ''next'') then Some (current_step + 1)
      else (case next_step of
              Some (PInt i) \<Rightarrow> Some i
            | Some (PBool b) \<Rightarrow> Some (if b then 1 else 0)
            | Some v \<Rightarrow> map_option int (find_step sts v 0)
            | None \<Rightarrow> None))"

fun workflow_loop ::
  "nat \<Rightarrow> WorkflowStep list \<Rightarrow> int \<Rightarrow> TaskResult list \<Rightarrow> sched
     \<Rightarrow> (sched \<times> TaskResult list outcome) option" where
  "workflow_loop n sts current_step rs s =
     (if current_step < int (length sts) then
        (case n of
           0 \<Rightarrow> None
         | Suc m \<Rightarrow>
             (case py_index sts current_step of
                Inl e \<Rightarrow> Some (s, Raised e)
              | Inr step \<Rightarrow>
                  (case (case step_task_id step of
                           None \<Rightarrow> Some (s, None)
                         | Some tid \<Rightarrow> execute_task m tid s) of
                     None \<Rightarrow> None
                   | Some (s1, None) \<Rightarrow>
                       Some (s1, Raised (AttributeError
                              ''NoneType object has no attribute status''))
                   | Some (s1, Some r) \<Rightarrow>
                       (case select_next sts current_step
                               (if status r = COMPLETED then on_success step
                                else on_failure step) of
                          None \<Rightarrow> Some (s1, Returned (rs @ [r]))
                        | Some j \<Rightarrow> workflow_loop m sts j (rs @ [r]) s1))))
      else Some (s, Returned rs))"

definition run_workflow :: "nat \<Rightarrow> string \<Rightarrow> sched \<Rightarrow> (sched \<times> TaskResult list outcome) option" where
  "run_workflow n workflow_id s =
     (case map_of (workflows s) workflow_id of
        None \<Rightarrow> Some (s, Returned [])
      | Some workflow \<Rightarrow> workflow_loop n (steps workflow) 0 [] s)"

subsection \<open>Auxiliary notions for the statements\<close>

text \<open>
  The dependencies \<open>ds\<close> need no execution in \<open>s\<close>: each is unregistered or has
  run before.
\<close>

definition deps_settled :: "sched \<Rightarrow> string list \<Rightarrow> bool" where
  "deps_settled s ds =
     list_all (\<lambda>d. case get_task d s of None \<Rightarrow> True | Some dt \<Rightarrow> last_run dt \<noteq> None) ds"

text \<open>The effect of one failed attempt that is retried: the handler is called, the
  budget decremented, the execution suspended.\<close>

definition retry_step :: "string \<Rightarrow> sched \<Rightarrow> sched" where
  "retry_step tid s =
     (case get_task tid s of
        None \<Rightarrow> s
      | Some t \<Rightarrow>
          sleep (retry_delay t)
            (upd_task tid (\<lambda>t. t\<lparr>retry_count := retry_count t - 1\<rparr>)
               (s\<lparr>trace := trace s @ [Invoke tid (action t) (action_params t)]\<rparr>)))"

text \<open>\<open>ScheduledTask(id=i, name=i, description="", trigger_type=EVENT,
  trigger_config={}, action=a)\<close> with the defaults of the dataclass, created at time 0.\<close>

definition new_task :: "string \<Rightarrow> string \<Rightarrow> ScheduledTask" where
  "new_task i a =
     \<lparr> id' = i, name = i, description = [], trigger_type = EVENT, trigger_config = [],
       action = a, action_params = [], enabled = True, created_at = 0, last_run = None,
       next_run = None, run_count = 0, max_runs = None, retry_on_fail = True,
       retry_count = 3, retry_delay = 60, tags = [], dependencies = [] \<rparr>"

text \<open>Three handlers: \<open>''ok''\<close> returns its argument \<open>message\<close> (as the built-in
  \<open>print\<close> does), \<open>''fail''\<close> always raises, \<open>''echo''\<close> returns its argument
  \<open>event_data\<close>.\<close>

definition example_actions :: "string \<Rightarrow> handler option" where
  "example_actions a =
     (if a = ''ok'' then Some (\<lambda>kw. Inr (case map_of kw ''message'' of None \<Rightarrow> PNone | Some v \<Rightarrow> v))
      else if a = ''fail'' then Some (\<lambda>kw. Inl ''boom'')
      else if a = ''echo''
        then Some (\<lambda>kw. Inr (case map_of kw ''event_data'' of None \<Rightarrow> PNone | Some v \<Rightarrow> v))
      else None)"

definition example_sched :: "(string \<times> ScheduledTask) list \<Rightarrow> sched" where
  "example_sched ts =
     \<lparr> tasks = ts, workflows = [], actions = example_actions, event_handlers = [],
       results = [], jobs = [], clock = 0, trace = [], disk = None \<rparr>"

text \<open>A task whose action always raises, with a budget of two retries.\<close>

definition flaky :: ScheduledTask where
  "flaky = (new_task ''flaky'' ''fail'')\<lparr>retry_count := 2, retry_delay := 5\<rparr>"

text \<open>A task created with \<open>retry_on_fail=False, retry_count=5, retry_delay=10\<close>.\<close>

definition no_retry_task :: ScheduledTask where
  "no_retry_task =
     (new_task ''t1'' ''ok'')\<lparr>retry_on_fail := False, retry_count := 5, retry_delay := 10\<rparr>"

text \<open>What a run of the dispatcher never undoes: the fields of a task that it leaves alone,
  and the link between \<open>last_run\<close> and \<open>run_count\<close>.\<close>

definition task_evolves :: "ScheduledTask \<Rightarrow> ScheduledTask \<Rightarrow> bool" where
  "task_evolves t t' \<longleftrightarrow>
     action t' = action t \<and> dependencies t' = dependencies t \<and> max_runs t' = max_runs t
     \<and> (last_run t \<noteq> None \<longrightarrow> last_run t' \<noteq> None)
     \<and> (last_run t' = None \<longrightarrow> run_count t' = run_count t)
     \<and> run_count t \<le> run_count t'
     \<and> (last_run t = None \<and> last_run t' \<noteq> None \<longrightarrow> run_count t < run_count t')"

definition evolves :: "sched \<Rightarrow> sched \<Rightarrow> bool" where
  "evolves s s' \<longleftrightarrow>
     actions s' = actions s \<and> (\<forall>k. rel_option task_evolves (get_task k s) (get_task k s'))"


text \<open>The status and the value that the handler of a task gives to an attempt.\<close>

definition outcome_status :: "sched \<Rightarrow> ScheduledTask \<Rightarrow> TaskStatus" where
  "outcome_status s t =
     (case actions s (action t) of
        None \<Rightarrow> FAILED
      | Some h \<Rightarrow> (case h (action_params t) of Inl e \<Rightarrow> FAILED | Inr v \<Rightarrow> COMPLETED))"

definition outcome_value :: "sched \<Rightarrow> ScheduledTask \<Rightarrow> pyval" where
  "outcome_value s t =
     (case actions s (action t) of
        None \<Rightarrow> PNone
      | Some h \<Rightarrow> (case h (action_params t) of Inl e \<Rightarrow> PNone | Inr v \<Rightarrow> v))"




text \<open>A scheduler whose result log holds 1000 entries.\<close>

definition full_log_sched :: sched where
  "full_log_sched =
     (example_sched [(''t'', new_task ''t'' ''ok'')])
       \<lparr>results := replicate 1000 (new_result ''old'' 0)\<rparr>"

text \<open>A step keeps the result log within its capacity.\<close>

definition log_bounded :: "sched \<Rightarrow> sched \<Rightarrow> bool" where
  "log_bounded s s' \<longleftrightarrow> (length (results s) \<le> 1000 \<longrightarrow> length (results s') \<le> 1000)"

text \<open>A task capped at one run, as \<open>schedule_once\<close> creates it.\<close>

definition once_task :: ScheduledTask where
  "once_task = (new_task ''once'' ''ok'')\<lparr>max_runs := Some 1\<rparr>"

text \<open>The workflow \<open>[A(on_success=1, on_failure="stop"), B(on_success="stop")]\<close> over
  the tasks \<open>a\<close> and \<open>b\<close>.\<close>

definition branch_steps :: "string \<Rightarrow> string \<Rightarrow> WorkflowStep list" where
  "branch_steps a b =
     [\<lparr> step_task_id = Some a, on_success = Some (PInt 1), on_failure = Some (PStr ''stop''),
        step_name = None \<rparr>,
      \<lparr> step_task_id = Some b, on_success = Some (PStr ''stop''), on_failure = None,
        step_name = None \<rparr>]"

definition branch_workflow :: Workflow where
  "branch_workflow =
     \<lparr> wf_id = ''w'', wf_name = ''w'', wf_description = [], steps = branch_steps ''A'' ''B'',
       wf_enabled = True, wf_created_at = 0 \<rparr>"

text \<open>The workflow registered with the tasks \<open>A\<close>, of action \<open>a\<close>, and \<open>B\<close>; and
  registered with no task at all.\<close>

definition workflow_sched :: "string \<Rightarrow> sched" where
  "workflow_sched a =
     (example_sched [(''A'', new_task ''A'' a), (''B'', new_task ''B'' ''ok'')])
       \<lparr>workflows := [(''w'', branch_workflow)]\<rparr>"

definition ghost_sched :: sched where
  "ghost_sched = (example_sched [])\<lparr>workflows := [(''w'', branch_workflow)]\<rparr>"


text \<open>
  What a run of the dispatcher adds to \<open>evolves\<close>: the trace grows at its end, and a
  task whose \<open>last_run\<close> the run has set, and whose action is registered, has had
  its handler called during the run.
\<close>

definition progress :: "sched \<Rightarrow> sched \<Rightarrow> bool" where
  "progress s s' \<longleftrightarrow>
     evolves s s'
     \<and> (\<exists>evs. trace s' = trace s @ evs
          \<and> (\<forall>k t t'. get_task k s = Some t \<and> get_task k s' = Some t'
                \<and> last_run t = None \<and> last_run t' \<noteq> None \<and> actions s (action t) \<noteq> None
                \<longrightarrow> (\<exists>p. Invoke k (action t) p \<in> set evs)))"


text \<open>A task \<open>report\<close> whose first dependency, \<open>blocked\<close>, has never run and has a
  cap of runs below its \<open>run_count\<close> of 0.\<close>

definition blocked_sched :: sched where
  "blocked_sched =
     example_sched
       [(''report'', (new_task ''report'' ''ok'')\<lparr>dependencies := [''blocked'', ''fetch'']\<rparr>),
        (''blocked'', (new_task ''blocked'' ''ok'')\<lparr>max_runs := Some (- 1)\<rparr>),
        (''fetch'', new_task ''fetch'' ''ok'')]"

section \<open>Properties\<close>

subsection \<open>Basic facts about the state operations\<close>

declare execute_task.simps(2) [simp del]
declare perform_action.simps [simp del]

named_theorems sched_simps

lemma get_task_upd_task [sched_simps]:
  "get_task k (upd_task tid f s) = (if k = tid then map_option f (get_task tid s) else get_task k s)"
  by (simp add: get_task_def upd_task_def map_of_map_entry split: option.splits)

lemma upd_task_fields [sched_simps]:
  "actions (upd_task tid f s) = actions s"
  "results (upd_task tid f s) = results s"
  "clock (upd_task tid f s) = clock s"
  "trace (upd_task tid f s) = trace s"
  "workflows (upd_task tid f s) = workflows s"
  "event_handlers (upd_task tid f s) = event_handlers s"
  by (simp_all add: upd_task_def)

lemma sleep_fields [sched_simps]:
  "get_task k (sleep d s) = get_task k s"
  "actions (sleep d s) = actions s"
  "results (sleep d s) = results s"
  "clock (sleep d s) = clock s + max 0 d"
  "trace (sleep d s) = trace s @ [Sleep d]"
  by (simp_all add: sleep_def get_task_def)

lemma save_tasks_fields [sched_simps]:
  "get_task k (save_tasks s) = get_task k s"
  "actions (save_tasks s) = actions s"
  "results (save_tasks s) = results s"
  "clock (save_tasks s) = clock s"
  "trace (save_tasks s) = trace s"
  by (simp_all add: save_tasks_def get_task_def)

lemma remove_job_fields [sched_simps]:
  "get_task k (remove_job tid s) = get_task k s"
  "actions (remove_job tid s) = actions s"
  "results (remove_job tid s) = results s"
  "clock (remove_job tid s) = clock s"
  "trace (remove_job tid s) = trace s"
  by (simp_all add: remove_job_def get_task_def)

lemma field_update_get_task [sched_simps]:
  "get_task k (s\<lparr>trace := tr\<rparr>) = get_task k s"
  "get_task k (s\<lparr>results := rs\<rparr>) = get_task k s"
  by (simp_all add: get_task_def)

lemma finalize_fields [sched_simps]:
  "get_task k (fst (finalize tid start res s)) =
     (if k = tid
      then map_option (\<lambda>t. t\<lparr>last_run := Some start, run_count := run_count t + 1\<rparr>)
             (get_task tid s)
      else get_task k s)"
  "actions (fst (finalize tid start res s)) = actions s"
  "results (fst (finalize tid start res s)) =
     append_result (res\<lparr>end_time := Some (clock s), duration := clock s - start\<rparr>) (results s)"
  "clock (fst (finalize tid start res s)) = clock s"
  "trace (fst (finalize tid start res s)) = trace s"
  "snd (finalize tid start res s) =
     Some (res\<lparr>end_time := Some (clock s), duration := clock s - start\<rparr>)"
  by (simp_all add: finalize_def Let_def sched_simps)

lemma disable_task_fields [sched_simps]:
  "get_task k (fst (disable_task tid s)) =
     (if k = tid then map_option (\<lambda>t. t\<lparr>enabled := False\<rparr>) (get_task tid s) else get_task k s)"
  "actions (fst (disable_task tid s)) = actions s"
  "results (fst (disable_task tid s)) = results s"
  "clock (fst (disable_task tid s)) = clock s"
  "trace (fst (disable_task tid s)) = trace s"
  by (auto simp add: disable_task_def sched_simps get_task_def[of _ s, symmetric] split: option.splits)

subsection \<open>What every step of the dispatcher preserves, a run preserves\<close>

lemma run_dependencies_preserves:
  assumes ex: "\<And>tid s s' r. execute_task n tid s = Some (s', r) \<Longrightarrow> I s s'"
    and refl: "\<And>s. I s s"
    and trans: "\<And>s s' s''. I s s' \<Longrightarrow> I s' s'' \<Longrightarrow> I s s''"
    and run: "run_dependencies n ds s = Some s'"
  shows "I s s'"
  using run
proof (induction ds arbitrary: s)
  case Nil
  then show ?case by (simp add: refl)
next
  case (Cons d ds)
  show ?case
  proof (cases "get_task d s")
    case None
    with Cons show ?thesis by simp
  next
    case (Some dt)
    show ?thesis
    proof (cases "last_run dt = None")
      case False
      with Some Cons show ?thesis by simp
    next
      case True
      with Some Cons.prems obtain s1 r where
        e: "execute_task n d s = Some (s1, r)" and r: "run_dependencies n ds s1 = Some s'"
        by (auto split: option.splits)
      from ex[OF e] Cons.IH[OF r] show ?thesis by (rule trans)
    qed
  qed
qed

lemma execute_task_preserves:
  assumes refl: "\<And>s. I s s"
    and trans: "\<And>s s' s''. I s s' \<Longrightarrow> I s' s'' \<Longrightarrow> I s s''"
    and dis: "\<And>tid s. I s (fst (disable_task tid s))"
    and fin: "\<And>tid start res s. I s (fst (finalize tid start res s))"
    and tr: "\<And>s ev. I s (s\<lparr>trace := trace s @ [ev]\<rparr>)"
    and dec: "\<And>tid s. I s (upd_task tid (\<lambda>t. t\<lparr>retry_count := retry_count t - 1\<rparr>) s)"
    and sl: "\<And>d s. I s (sleep d s)"
  shows "execute_task n tid s = Some (s', r) \<Longrightarrow> I s s'"
proof (induction n arbitrary: tid s s' r)
  case 0
  then show ?case by simp
next
  case (Suc n)
  note IH = Suc.IH
  have deps: "I a b" if "run_dependencies n ds a = Some b" for ds a b
    using run_dependencies_preserves[where I = I, OF IH refl trans that] .
  have perf: "I a b" if p: "perform_action n k st a = Some (b, q)" for k st a b q
  proof (cases "get_task k a")
    case None
    with p show ?thesis by (simp add: perform_action.simps refl)
  next
    case (Some task)
    show ?thesis
    proof (cases "actions a (action task)")
      case None
      with Some p have "b = fst (finalize k st ((new_result k st)
           \<lparr>status := FAILED, error := Some (''Nieznana akcja: '' @ action task)\<rparr>) a)"
        by (auto simp add: perform_action.simps)
      then show ?thesis by (simp add: fin)
    next
      case (Some h)
      note h = this
      let ?a1 = "a\<lparr>trace := trace a @ [Invoke k (action task) (action_params task)]\<rparr>"
      have a1: "I a ?a1" by (rule tr)
      show ?thesis
      proof (cases "h (action_params task)")
        case (Inr v)
        with h \<open>get_task k a = Some task\<close> p
        have "b = fst (finalize k st ((new_result k st)\<lparr>result := v, status := COMPLETED\<rparr>) ?a1)"
          by (auto simp add: perform_action.simps)
        then show ?thesis using a1 fin trans by blast
      next
        case (Inl e)
        show ?thesis
        proof (cases "retry_on_fail task \<and> retry_count task > 0")
          case False
          with Inl h \<open>get_task k a = Some task\<close> p
          have "b = fst (finalize k st ((new_result k st)\<lparr>status := FAILED, error := Some e\<rparr>) ?a1)"
            by (auto simp add: perform_action.simps)
          then show ?thesis using a1 fin trans by blast
        next
          case True
          let ?a2 = "upd_task k (\<lambda>t. t\<lparr>retry_count := retry_count t - 1\<rparr>) ?a1"
          let ?a3 = "sleep (retry_delay task) ?a2"
          from True Inl h \<open>get_task k a = Some task\<close> p
          have "execute_task n k ?a3 = Some (b, q)"
            by (simp add: perform_action.simps)
          then have "I ?a3 b" by (rule IH)
          moreover have "I a ?a3" using a1 dec[of ?a1 k] sl[of ?a2 "retry_delay task"] trans by blast
          ultimately show ?thesis using trans by blast
        qed
      qed
    qed
  qed
  show ?case
  proof (cases "get_task tid s")
    case None
    with Suc.prems show ?thesis by (simp add: execute_task.simps(2) refl)
  next
    case (Some task)
    show ?thesis
    proof (cases "max_runs_reached task")
      case True
      with Some Suc.prems show ?thesis by (auto simp add: execute_task.simps(2) dis)
    next
      case False
      with Some Suc.prems obtain s1 where
        d: "run_dependencies n (dependencies task) s = Some s1" and
        p: "perform_action n tid (clock s) s1 = Some (s', r)"
        by (auto simp add: execute_task.simps(2) split: option.splits)
      from deps[OF d] perf[OF p] show ?thesis by (rule trans)
    qed
  qed
qed

subsection \<open>Tasks whose dependencies need no execution\<close>

lemma run_dependencies_settled:
  "deps_settled s ds \<Longrightarrow> run_dependencies n ds s = Some s"
  by (induction ds) (auto simp: deps_settled_def split: option.splits)

lemma deps_settled_cong:
  assumes "\<And>d. map_option last_run (get_task d s') = map_option last_run (get_task d s)"
  shows "deps_settled s' ds = deps_settled s ds"
proof -
  have "(case get_task d s' of None \<Rightarrow> True | Some dt \<Rightarrow> last_run dt \<noteq> None) =
        (case get_task d s of None \<Rightarrow> True | Some dt \<Rightarrow> last_run dt \<noteq> None)" for d
    using assms[of d] by (cases "get_task d s"; cases "get_task d s'") auto
  then show ?thesis by (simp add: deps_settled_def)
qed

lemma max_runs_reached_retry_count [simp]:
  "max_runs_reached (t\<lparr>retry_count := c\<rparr>) = max_runs_reached t"
  by (simp add: max_runs_reached_def split: option.splits)

lemma execute_task_settled:
  assumes "get_task tid s = Some t" "\<not> max_runs_reached t" "deps_settled s (dependencies t)"
  shows "execute_task (Suc n) tid s = perform_action n tid (clock s) s"
  using assms by (simp add: execute_task.simps(2) run_dependencies_settled)

lemma retry_step_task:
  assumes "get_task tid s = Some t"
  shows "get_task k (retry_step tid s) =
           (if k = tid then Some (t\<lparr>retry_count := retry_count t - 1\<rparr>) else get_task k s)"
    and "actions (retry_step tid s) = actions s"
    and "results (retry_step tid s) = results s"
    and "clock (retry_step tid s) = clock s + max 0 (retry_delay t)"
    and "trace (retry_step tid s) =
           trace s @ [Invoke tid (action t) (action_params t), Sleep (retry_delay t)]"
  using assms by (simp_all add: retry_step_def sched_simps)

lemma concat_replicate_snoc: "concat (replicate n xs) @ xs = xs @ concat (replicate n xs)"
  by (induction n) simp_all

lemma retry_steps:
  assumes "get_task tid s = Some t"
  shows "get_task k ((retry_step tid ^^ n) s) =
           (if k = tid then Some (t\<lparr>retry_count := retry_count t - int n\<rparr>) else get_task k s)
         \<and> actions ((retry_step tid ^^ n) s) = actions s
         \<and> results ((retry_step tid ^^ n) s) = results s
         \<and> clock ((retry_step tid ^^ n) s) = clock s + int n * max 0 (retry_delay t)
         \<and> trace ((retry_step tid ^^ n) s) =
             trace s @ concat (replicate n
               [Invoke tid (action t) (action_params t), Sleep (retry_delay t)])"
proof (induction n arbitrary: k)
  case 0
  with assms show ?case by simp
next
  case (Suc n)
  let ?s = "(retry_step tid ^^ n) s"
  let ?t = "t\<lparr>retry_count := retry_count t - int n\<rparr>"
  have g: "get_task tid ?s = Some ?t" using Suc.IH[of tid] by simp
  have o: "get_task k ?s = get_task k s" if "k \<noteq> tid" using Suc.IH[of k] that by simp
  note rest = Suc.IH[of tid, THEN conjunct2]
  show ?case
    using retry_step_task(1)[OF g, of k] retry_step_task(2-5)[OF g] rest o
    by (simp add: algebra_simps concat_replicate_snoc)
qed

lemma execute_task_always_fails:
  assumes "get_task tid s = Some t" "\<not> max_runs_reached t" "deps_settled s (dependencies t)"
    and "actions s (action t) = Some h" "h (action_params t) = Inl e"
    and "retry_on_fail t" "retry_count t = int k"
  shows "execute_task (Suc (k + m)) tid s =
           Some (finalize tid (clock ((retry_step tid ^^ k) s))
                   ((new_result tid (clock ((retry_step tid ^^ k) s)))
                      \<lparr>status := FAILED, error := Some e\<rparr>)
                   (((retry_step tid ^^ k) s)
                      \<lparr>trace := trace ((retry_step tid ^^ k) s) @
                                 [Invoke tid (action t) (action_params t)]\<rparr>))"
  using assms
proof (induction k arbitrary: s t)
  case 0
  then show ?case by (simp add: execute_task_settled perform_action.simps)
next
  case (Suc k)
  let ?s1 = "retry_step tid s"
  let ?t1 = "t\<lparr>retry_count := int k\<rparr>"
  have g: "get_task tid ?s1 = Some ?t1"
    using Suc.prems by (simp add: retry_step_task)
  have m: "\<not> max_runs_reached ?t1"
    using Suc.prems by simp
  have d: "deps_settled ?s1 (dependencies ?t1)"
    using Suc.prems deps_settled_cong[of ?s1 s "dependencies t"]
    by (simp add: retry_step_task)
  have a: "actions ?s1 (action ?t1) = Some h" "h (action_params ?t1) = Inl e"
      "retry_on_fail ?t1" "retry_count ?t1 = int k"
    using Suc.prems by (simp_all add: retry_step_task)
  have "execute_task (Suc (Suc k + m)) tid s = execute_task (Suc (k + m)) tid ?s1"
    using Suc.prems by (simp add: execute_task_settled perform_action.simps retry_step_def)
  also have "\<dots> = Some (finalize tid (clock ((retry_step tid ^^ k) ?s1))
                   ((new_result tid (clock ((retry_step tid ^^ k) ?s1)))
                      \<lparr>status := FAILED, error := Some e\<rparr>)
                   (((retry_step tid ^^ k) ?s1)
                      \<lparr>trace := trace ((retry_step tid ^^ k) ?s1) @
                                 [Invoke tid (action ?t1) (action_params ?t1)]\<rparr>))"
    by (rule Suc.IH[OF g m d a])
  finally show ?case by (simp add: funpow_swap1)
qed

subsection \<open>Retries\<close>

text \<open>
  Claim C1. Let a task have \<open>retry_on_fail\<close> set and \<open>retry_count = k > 0\<close>, and let
  its action raise on every call. Let the dependency loop of the first attempt return
  (state \<open>s1\<close>) and leave no dependency to execute and the task as it was; with
  dependencies that have all run before, \<open>s1\<close> is the initial state. Then one
  execution returns, with fuel \<open>k + 1\<close> or more, and:
  the handler is called \<open>k + 1\<close> times, that is \<open>k\<close> times after the first failure;
  after each of the first \<open>k\<close> calls the execution is suspended for
  \<open>retry_delay\<close> seconds; one \<open>TaskResult\<close>, of status \<open>FAILED\<close> and carrying
  the exception's text, is appended to the result log, once; \<open>retry_count\<close> ends at 0
  and \<open>run_count\<close> is incremented once.
\<close>

theorem retry_budget_exhausted:
  assumes "get_task tid s = Some t"
    and "\<not> max_runs_reached t"
    and "run_dependencies (k + m) (dependencies t) s = Some s1"
    and "get_task tid s1 = Some t"
    and "deps_settled s1 (dependencies t)"
    and "actions s1 (action t) = Some h"
    and "h (action_params t) = Inl e"
    and "retry_on_fail t"
    and "retry_count t = int k"
    and "0 < k"
  shows "\<exists>s' r.
           execute_task (Suc (k + m)) tid s = Some (s', Some r)
         \<and> task_id r = tid \<and> status r = FAILED \<and> error r = Some e
         \<and> results s' = append_result r (results s1)
         \<and> trace s' = trace s1
              @ concat (replicate k
                  [Invoke tid (action t) (action_params t), Sleep (retry_delay t)])
              @ [Invoke tid (action t) (action_params t)]
         \<and> map_option retry_count (get_task tid s') = Some 0
         \<and> map_option run_count (get_task tid s') = Some (run_count t + 1)"
proof -
  from \<open>0 < k\<close> obtain j where k: "k = Suc j" by (cases k) auto
  let ?s2 = "retry_step tid s1"
  let ?t2 = "t\<lparr>retry_count := int j\<rparr>"
  let ?sk = "(retry_step tid ^^ j) ?s2"
  let ?f = "finalize tid (clock ?sk)
              ((new_result tid (clock ?sk))\<lparr>status := FAILED, error := Some e\<rparr>)
              (?sk\<lparr>trace := trace ?sk @ [Invoke tid (action t) (action_params t)]\<rparr>)"
  have sk: "?sk = (retry_step tid ^^ k) s1" by (simp add: k funpow_swap1)
  note st = retry_steps[OF assms(4), of _ k, folded sk]
  have g: "get_task tid ?s2 = Some ?t2"
    using assms(4,9) by (simp add: retry_step_task k)
  have d: "deps_settled ?s2 (dependencies ?t2)"
    using assms(4,5) deps_settled_cong[of ?s2 s1 "dependencies t"]
    by (simp add: retry_step_task)
  have a: "actions ?s2 (action ?t2) = Some h" "h (action_params ?t2) = Inl e"
      "retry_on_fail ?t2" "retry_count ?t2 = int j"
    using assms by (simp_all add: retry_step_task)
  have "execute_task (Suc (k + m)) tid s = perform_action (k + m) tid (clock s) s1"
    using assms(1-3) by (simp add: execute_task.simps(2))
  also have "\<dots> = execute_task (Suc (j + m)) tid ?s2"
    using assms(4,6-10) by (simp add: perform_action.simps retry_step_def k)
  also have "\<dots> = Some ?f"
    using execute_task_always_fails[OF g _ d a, of m] assms(2) by simp
  finally have ex: "execute_task (Suc (k + m)) tid s = Some ?f" .
  obtain r where r: "snd ?f = Some r"
    and rf: "task_id r = tid" "status r = FAILED" "error r = Some e"
    by (simp add: sched_simps new_result_def)
  have "?f = (fst ?f, Some r)" using r by (metis prod.collapse)
  moreover have "results (fst ?f) = append_result r (results s1)"
    using r st[of tid] by (simp add: sched_simps)
  moreover have "trace (fst ?f) = trace s1
              @ concat (replicate k
                  [Invoke tid (action t) (action_params t), Sleep (retry_delay t)])
              @ [Invoke tid (action t) (action_params t)]"
    using st[of tid] by (simp add: sched_simps)
  moreover have "map_option retry_count (get_task tid (fst ?f)) = Some 0"
    "map_option run_count (get_task tid (fst ?f)) = Some (run_count t + 1)"
    using st[of tid] assms(9) by (simp_all add: sched_simps)
  ultimately show ?thesis using ex rf by metis
qed

theorem retry_budget_exhausted_witness:
  "\<exists>s' r. execute_task (Suc 2) ''flaky'' (example_sched [(''flaky'', flaky)]) = Some (s', Some r)
        \<and> status r = FAILED \<and> error r = Some ''boom''
        \<and> results s' = [r]
        \<and> trace s' = [Invoke ''flaky'' ''fail'' [], Sleep 5,
                       Invoke ''flaky'' ''fail'' [], Sleep 5,
                       Invoke ''flaky'' ''fail'' []]
        \<and> map_option retry_count (get_task ''flaky'' s') = Some 0"
proof -
  let ?s = "example_sched [(''flaky'', flaky)]"
  have g: "get_task ''flaky'' ?s = Some flaky"
    by (simp add: get_task_def example_sched_def)
  have m: "\<not> max_runs_reached flaky"
    by (simp add: max_runs_reached_def flaky_def new_task_def)
  have d: "run_dependencies (2 + 0) (dependencies flaky) ?s = Some ?s"
    by (simp add: flaky_def new_task_def)
  have ds: "deps_settled ?s (dependencies flaky)"
    by (simp add: deps_settled_def flaky_def new_task_def)
  have a: "actions ?s (action flaky) = Some (\<lambda>kw. Inl ''boom'')"
    by (simp add: example_sched_def example_actions_def flaky_def new_task_def)
  have h: "(\<lambda>kw. Inl ''boom'' :: string + pyval) (action_params flaky) = Inl ''boom''"
    by simp
  have r: "retry_on_fail flaky" "retry_count flaky = int 2" "0 < (2::nat)"
    by (simp_all add: flaky_def new_task_def)
  from retry_budget_exhausted[OF g m d g ds a h r]
  show ?thesis
    by (simp add: append_result_def example_sched_def flaky_def new_task_def numeral_2_eq_2)
      blast
qed

subsection \<open>Serialisation\<close>

lemma trigger_of_value_trigger_value: "trigger_of_value (trigger_value tt) = Inr tt"
  by (cases tt) (simp_all add: trigger_of_value_def)

text \<open>
  Claim C5, as the code has it. \<open>to_dict\<close> followed by \<open>from_dict\<close> reproduces
  \<open>id\<close>, \<open>name\<close>, \<open>description\<close>, \<open>trigger_type\<close>, \<open>trigger_config\<close>,
  \<open>action\<close>, \<open>action_params\<close>, \<open>enabled\<close>, \<open>created_at\<close>, \<open>last_run\<close>,
  \<open>run_count\<close>, \<open>max_runs\<close>, \<open>tags\<close> and \<open>dependencies\<close>, and never raises;
  \<open>retry_on_fail\<close>, \<open>retry_count\<close>, \<open>retry_delay\<close> and \<open>next_run\<close> are not
  written and come back as the defaults \<open>True\<close>, 3, 60 and \<open>None\<close>.
\<close>

theorem from_dict_to_dict:
  "from_dict now (to_dict t) =
     Inr (t\<lparr>next_run := None, retry_on_fail := True, retry_count := 3, retry_delay := 60\<rparr>)"
  by (cases "last_run t")
     (simp_all add: from_dict_def to_dict_def bind_exn_def subscript_def
        trigger_of_value_trigger_value isoformat_def)

text \<open>
  Claim C5, as stated, fails: a task with \<open>retry_on_fail = False\<close>,
  \<open>retry_count = 5\<close> and \<open>retry_delay = 10\<close> comes back with
  \<open>True\<close>, 3 and 60.
\<close>

theorem roundtrip_loses_retry_policy:
  "from_dict 0 (to_dict no_retry_task) \<noteq> Inr no_retry_task
   \<and> map_sum (\<lambda>e. e) (\<lambda>t. (retry_on_fail t, retry_count t, retry_delay t))
        (from_dict 0 (to_dict no_retry_task)) = Inr (True, 3, 60)
   \<and> (retry_on_fail no_retry_task, retry_count no_retry_task, retry_delay no_retry_task)
        = (False, 5, 10)"
  by (simp add: from_dict_def to_dict_def bind_exn_def subscript_def
        trigger_of_value_def isoformat_def no_retry_task_def new_task_def)

subsection \<open>Operations of the task store\<close>

text \<open>
  Claim C10. For an id that is not in the task store, \<open>remove_task\<close>,
  \<open>enable_task\<close> and \<open>disable_task\<close> return \<open>False\<close> and leave the state as it
  is. For an id that is in the store, \<open>remove_task\<close> returns \<open>True\<close>; afterwards
  \<open>get_task\<close> gives \<open>None\<close> for it and what it gave before for every other id.
\<close>

theorem store_operations:
  "(get_task tid s = None \<longrightarrow>
      remove_task tid s = (s, False)
    \<and> enable_task lib tid s = (s, Returned False)
    \<and> disable_task tid s = (s, False))
   \<and> (get_task tid s \<noteq> None \<longrightarrow>
      snd (remove_task tid s) = True
    \<and> get_task tid (fst (remove_task tid s)) = None
    \<and> (\<forall>other. other \<noteq> tid \<longrightarrow>
          get_task other (fst (remove_task tid s)) = get_task other s))"
  by (auto simp add: remove_task_def enable_task_def disable_task_def get_task_def
        save_tasks_def remove_job_def delete_conv)

theorem store_operations_witness:
  "remove_task ''zz'' (example_sched [(''flaky'', flaky), (''t1'', no_retry_task)])
     = (example_sched [(''flaky'', flaky), (''t1'', no_retry_task)], False)
   \<and> enable_task (\<lambda>task now. Inr None) ''zz'' (example_sched [(''flaky'', flaky), (''t1'', no_retry_task)])
     = (example_sched [(''flaky'', flaky), (''t1'', no_retry_task)], Returned False)
   \<and> disable_task ''zz'' (example_sched [(''flaky'', flaky), (''t1'', no_retry_task)])
     = (example_sched [(''flaky'', flaky), (''t1'', no_retry_task)], False)
   \<and> snd (remove_task ''flaky'' (example_sched [(''flaky'', flaky), (''t1'', no_retry_task)]))
   \<and> get_task ''flaky''
        (fst (remove_task ''flaky'' (example_sched [(''flaky'', flaky), (''t1'', no_retry_task)])))
       = None
   \<and> get_task ''t1''
        (fst (remove_task ''flaky'' (example_sched [(''flaky'', flaky), (''t1'', no_retry_task)])))
       = Some no_retry_task"
proof -
  let ?s = "example_sched [(''flaky'', flaky), (''t1'', no_retry_task)]"
  have a: "get_task ''zz'' ?s = None" and b: "get_task ''flaky'' ?s \<noteq> None"
    and c: "get_task ''t1'' ?s = Some no_retry_task"
    by (simp_all add: get_task_def example_sched_def)
  from store_operations[of "''zz''" ?s "\<lambda>task now. Inr None"] store_operations[of "''flaky''" ?s "\<lambda>task now. Inr None"] a b c
  show ?thesis by simp
qed

subsection \<open>How the task store evolves during a run\<close>

lemma task_evolves_refl: "task_evolves t t"
  by (auto simp add: task_evolves_def)

lemma task_evolves_trans: "task_evolves t t' \<Longrightarrow> task_evolves t' t'' \<Longrightarrow> task_evolves t t''"
  by (auto simp add: task_evolves_def)

lemma evolves_refl: "evolves s s"
  by (simp add: evolves_def option.rel_refl task_evolves_refl)

lemma evolves_trans: "evolves s s' \<Longrightarrow> evolves s' s'' \<Longrightarrow> evolves s s''"
  unfolding evolves_def
proof (intro conjI allI, goal_cases)
  case 1
  then show ?case by simp
next
  case (2 k)
  then have "rel_option task_evolves (get_task k s) (get_task k s')"
    "rel_option task_evolves (get_task k s') (get_task k s'')" by auto
  then show ?case
    by (cases "get_task k s"; cases "get_task k s'"; cases "get_task k s''")
       (auto intro: task_evolves_trans)
qed

lemma evolves_upd_task:
  assumes "\<And>t. task_evolves t (f t)"
  shows "evolves s (upd_task tid f s)"
  using assms
  by (auto simp add: evolves_def sched_simps option.rel_map option.rel_refl task_evolves_refl
      intro!: option.rel_refl_strong)

lemma evolves_same_tasks:
  assumes "actions s' = actions s" "\<And>k. get_task k s' = get_task k s"
  shows "evolves s s'"
  using assms by (simp add: evolves_def option.rel_refl task_evolves_refl)

lemma evolves_disable_task: "evolves s (fst (disable_task tid s))"
  by (auto simp add: evolves_def sched_simps option.rel_map task_evolves_def
      intro!: option.rel_refl_strong)

lemma evolves_finalize: "evolves s (fst (finalize tid start res s))"
  by (auto simp add: evolves_def sched_simps option.rel_map task_evolves_def
      intro!: option.rel_refl_strong)

lemma execute_task_evolves: "execute_task n tid s = Some (s', r) \<Longrightarrow> evolves s s'"
proof (rule execute_task_preserves[where I = evolves])
  show "evolves s (upd_task tid (\<lambda>t. t\<lparr>retry_count := retry_count t - 1\<rparr>) s)" for tid s
    by (rule evolves_upd_task) (auto simp add: task_evolves_def)
qed (auto intro: evolves_refl evolves_trans evolves_disable_task evolves_finalize
      evolves_same_tasks simp add: sched_simps)

lemma run_dependencies_evolves: "run_dependencies n ds s = Some s' \<Longrightarrow> evolves s s'"
  by (rule run_dependencies_preserves[where I = evolves])
     (auto intro: evolves_refl evolves_trans execute_task_evolves)

lemma evolves_get_task:
  assumes "evolves s s'" "get_task k s = Some t"
  obtains t' where "get_task k s' = Some t'" "task_evolves t t'"
proof -
  from assms have "rel_option task_evolves (Some t) (get_task k s')"
    by (auto simp add: evolves_def dest: spec[of _ k])
  then show ?thesis using that by (cases "get_task k s'") simp_all
qed




subsection \<open>Dependencies\<close>


subsection \<open>An execution without pending dependencies returns\<close>

lemma set_concat_replicate: "set (concat (replicate n xs)) \<subseteq> set xs"
  by (induction n) simp_all

lemma finalize_settled:
  assumes g: "get_task tid s2 = Some t2"
    and f: "x = finalize tid start res s2"
  shows "\<exists>s' r. x = (s', Some r) \<and> task_id r = task_id res \<and> status r = status res
         \<and> error r = error res \<and> result r = result res
         \<and> (\<forall>k. k \<noteq> tid \<longrightarrow> get_task k s' = get_task k s2)
         \<and> get_task tid s' = Some (t2\<lparr>last_run := Some start, run_count := run_count t2 + 1\<rparr>)
         \<and> results s' = append_result r (results s2)
         \<and> actions s' = actions s2 \<and> trace s' = trace s2"
proof -
  let ?r = "res\<lparr>end_time := Some (clock s2), duration := clock s2 - start\<rparr>"
  have "x = (fst x, Some ?r)" unfolding f using finalize_fields(6)[of tid start res s2]
    by (metis prod.collapse)
  then show ?thesis using g unfolding f
    by (intro exI[of _ "fst (finalize tid start res s2)"] exI[of _ ?r])
       (simp add: sched_simps)
qed

lemma execute_task_settled_returns:
  assumes g: "get_task tid s = Some t" and m: "\<not> max_runs_reached t"
    and d: "deps_settled s (dependencies t)"
  shows "\<exists>s' r rc lr. execute_task (Suc (nat (retry_count t) + m)) tid s = Some (s', Some r)
         \<and> task_id r = tid \<and> status r = outcome_status s t \<and> result r = outcome_value s t
         \<and> (\<forall>k. k \<noteq> tid \<longrightarrow> get_task k s' = get_task k s)
         \<and> get_task tid s' = Some (t\<lparr>retry_count := rc, last_run := Some lr,
                                       run_count := run_count t + 1\<rparr>)
         \<and> results s' = append_result r (results s)
         \<and> actions s' = actions s
         \<and> (\<exists>evs. trace s' = trace s @ evs
               \<and> set evs \<subseteq> {Invoke tid (action t) (action_params t), Sleep (retry_delay t)}
               \<and> (actions s (action t) \<noteq> None \<longrightarrow>
                    Invoke tid (action t) (action_params t) \<in> set evs))"
proof -
  let ?n = "nat (retry_count t) + m"
  let ?inv = "Invoke tid (action t) (action_params t)"
  have e: "execute_task (Suc ?n) tid s = perform_action ?n tid (clock s) s"
    using g m d by (rule execute_task_settled)
  let ?s2 = "s\<lparr>trace := trace s @ [Invoke tid (action t) (action_params t)]\<rparr>"
  have g2: "get_task tid ?s2 = Some t" using g by (simp add: sched_simps)
  have fin: ?thesis if "execute_task (Suc ?n) tid s = Some (finalize tid start res s2)"
    "get_task tid s2 = Some (t\<lparr>retry_count := rc\<rparr>)" "task_id res = tid" "status res = outcome_status s t"
    "result res = outcome_value s t"
    "\<And>k. k \<noteq> tid \<Longrightarrow> get_task k s2 = get_task k s" "results s2 = results s" "actions s2 = actions s"
    "trace s2 = trace s @ evs" "set evs \<subseteq> {?inv, Sleep (retry_delay t)}"
    "actions s (action t) \<noteq> None \<longrightarrow> ?inv \<in> set evs"
  for start res s2 rc evs
  proof -
    from finalize_settled[OF that(2) refl, of start res] obtain s' r where
      x: "finalize tid start res s2 = (s', Some r)" "task_id r = task_id res" "status r = status res"
       "result r = result res"
       "\<forall>k. k \<noteq> tid \<longrightarrow> get_task k s' = get_task k s2"
       "get_task tid s' = Some (t\<lparr>retry_count := rc, last_run := Some start, run_count := run_count t + 1\<rparr>)"
       "results s' = append_result r (results s2)" "actions s' = actions s2"
       "trace s' = trace s2"
      by auto
    have tr: "\<exists>evs. trace s' = trace s @ evs
               \<and> set evs \<subseteq> {?inv, Sleep (retry_delay t)}
               \<and> (actions s (action t) \<noteq> None \<longrightarrow> ?inv \<in> set evs)"
      using x(9) that(9-11) by (intro exI[of _ evs]) simp
    show ?thesis
      apply (rule exI[of _ s'], rule exI[of _ r], rule exI[of _ rc], rule exI[of _ start])
      using x(1-8) that(1-8) tr by simp
  qed
  have t_eq: "t\<lparr>retry_count := retry_count t\<rparr> = t" by simp
  show ?thesis
  proof (cases "actions s (action t)")
    case None
    show ?thesis
      by (rule fin[where ?s2.0 = s and rc = "retry_count t" and start = "clock s" and evs = "[]"
            and res = "(new_result tid (clock s))\<lparr>status := FAILED,
                 error := Some (''Nieznana akcja: '' @ action t)\<rparr>"])
         (use None g e in \<open>simp_all add: perform_action.simps outcome_status_def outcome_value_def new_result_def\<close>)
  next
    case (Some h)
    show ?thesis
    proof (cases "h (action_params t)")
      case (Inr v)
      show ?thesis
        by (rule fin[where ?s2.0 = ?s2 and rc = "retry_count t" and start = "clock s"
              and evs = "[?inv]"
              and res = "(new_result tid (clock s))\<lparr>result := v, status := COMPLETED\<rparr>"])
           (use Some Inr g e in \<open>simp_all add: perform_action.simps outcome_status_def outcome_value_def new_result_def sched_simps\<close>)
    next
      case (Inl err)
      show ?thesis
      proof (cases "retry_on_fail t \<and> retry_count t > 0")
        case False
        then have nr: "(retry_on_fail t \<and> 0 < retry_count t) = False" by simp
        show ?thesis
          by (rule fin[where ?s2.0 = ?s2 and rc = "retry_count t" and start = "clock s"
              and evs = "[?inv]"
                and res = "(new_result tid (clock s))\<lparr>status := FAILED, error := Some err\<rparr>"])
             (use Some Inl g e in \<open>simp_all add: nr perform_action.simps outcome_status_def outcome_value_def new_result_def sched_simps\<close>)
      next
        case True
        then have k: "retry_count t = int (nat (retry_count t))" by simp
        let ?sk = "(retry_step tid ^^ nat (retry_count t)) s"
        note st = retry_steps[OF g, of _ "nat (retry_count t)"]
        show ?thesis
          apply (rule fin[where ?s2.0 = "?sk\<lparr>trace := trace ?sk @ [Invoke tid (action t) (action_params t)]\<rparr>"
                and rc = 0 and start = "clock ?sk"
                and evs = "concat (replicate (nat (retry_count t)) [?inv, Sleep (retry_delay t)]) @ [?inv]"
                and res = "(new_result tid (clock ?sk))\<lparr>status := FAILED, error := Some err\<rparr>"])
          using execute_task_always_fails[OF g m d Some Inl _ k, of m] True
                apply simp
          using st[of tid] True apply (simp add: sched_simps)
          using Some Inl set_concat_replicate[of "nat (retry_count t)" "[?inv, Sleep (retry_delay t)]"]
            apply (simp_all add: outcome_status_def outcome_value_def new_result_def sched_simps st)
          done
      qed
    qed
  qed
qed

subsection \<open>Unknown actions\<close>

text \<open>
  Claim C9. Let the action name of a task be unregistered, and let the dependency loop
  of an execution return, in state \<open>s1\<close>. Then the execution returns one \<open>TaskResult\<close>
  of status \<open>FAILED\<close> whose error message is \<open>Nieznana akcja: \<close> followed by the
  action name, appended once to the result log. Nothing is retried, whatever
  \<open>retry_on_fail\<close> and \<open>retry_count\<close> are: after the loop no handler is called and
  no suspension happens (the trace stays that of \<open>s1\<close>), and \<open>retry_count\<close> stays
  what it is in \<open>s1\<close>; when the loop changed nothing, the task differs from the one
  before the execution in \<open>last_run\<close> and \<open>run_count\<close> only.
\<close>

theorem unknown_action_fails_without_retry:
  assumes "get_task tid s = Some t" and "\<not> max_runs_reached t"
    and "actions s (action t) = None"
    and "run_dependencies n (dependencies t) s = Some s1"
  shows "\<exists>s' r t1.
           execute_task (Suc n) tid s = Some (s', Some r)
         \<and> task_id r = tid \<and> status r = FAILED
         \<and> error r = Some (''Nieznana akcja: '' @ action t)
         \<and> results s' = append_result r (results s1)
         \<and> trace s' = trace s1
         \<and> get_task tid s1 = Some t1
         \<and> get_task tid s' = Some (t1\<lparr>last_run := Some (clock s), run_count := run_count t1 + 1\<rparr>)"
proof -
  from run_dependencies_evolves[OF assms(4)] assms(1) obtain t1 where
    t1: "get_task tid s1 = Some t1" "task_evolves t t1"
    by (rule evolves_get_task)
  have a: "action t1 = action t" using t1(2) by (simp add: task_evolves_def)
  have b: "actions s1 = actions s"
    using run_dependencies_evolves[OF assms(4)] by (simp add: evolves_def)
  let ?res = "(new_result tid (clock s))
                \<lparr>status := FAILED, error := Some (''Nieznana akcja: '' @ action t)\<rparr>"
  have e: "execute_task (Suc n) tid s = Some (finalize tid (clock s) ?res s1)"
    using assms t1(1) a b by (simp add: execute_task.simps(2) perform_action.simps)
  from finalize_settled[OF t1(1) refl, of "clock s" ?res] obtain s' r where
    "finalize tid (clock s) ?res s1 = (s', Some r)" "task_id r = task_id ?res"
    "status r = status ?res" "error r = error ?res"
    "get_task tid s' = Some (t1\<lparr>last_run := Some (clock s), run_count := run_count t1 + 1\<rparr>)"
    "results s' = append_result r (results s1)" "trace s' = trace s1"
    by blast
  with e t1(1) show ?thesis by (simp add: new_result_def)
qed

theorem unknown_action_fails_without_retry_witness:
  "\<exists>s' r. execute_task (Suc 0) ''t'' (example_sched [(''t'', new_task ''t'' ''nope'')])
             = Some (s', Some r)
     \<and> status r = FAILED \<and> error r = Some ''Nieznana akcja: nope''
     \<and> results s' = [r] \<and> trace s' = []
     \<and> map_option retry_on_fail (get_task ''t'' s') = Some True
     \<and> map_option retry_count (get_task ''t'' s') = Some 3"
proof -
  let ?s = "example_sched [(''t'', new_task ''t'' ''nope'')]"
  have g: "get_task ''t'' ?s = Some (new_task ''t'' ''nope'')"
    by (simp add: get_task_def example_sched_def)
  have m: "\<not> max_runs_reached (new_task ''t'' ''nope'')"
    by (simp add: max_runs_reached_def new_task_def)
  have a: "actions ?s (action (new_task ''t'' ''nope'')) = None"
    by (simp add: example_sched_def example_actions_def new_task_def)
  have d: "run_dependencies 0 (dependencies (new_task ''t'' ''nope'')) ?s = Some ?s"
    by (simp add: new_task_def)
  from unknown_action_fails_without_retry[OF g m a d]
  show ?thesis
    by (simp add: g append_result_def) (auto simp add: example_sched_def new_task_def)
qed

subsection \<open>The result log\<close>

lemma length_append_result: "length (append_result r rs) \<le> 1000"
  by (simp add: append_result_def Let_def)

lemma append_result_overflow:
  "1000 \<le> length rs \<Longrightarrow> append_result r rs = drop (length rs - 499) (rs @ [r])
     \<and> length (append_result r rs) = 500"
  by (simp add: append_result_def Let_def)

lemma append_result_no_overflow:
  "length rs < 1000 \<Longrightarrow> append_result r rs = rs @ [r]"
  by (simp add: append_result_def Let_def)

declare workflow_loop.simps [simp del]

lemma execute_task_log_bounded:
  "execute_task n tid s = Some (s', r) \<Longrightarrow> log_bounded s s'"
  by (rule execute_task_preserves[where I = log_bounded])
     (auto simp add: log_bounded_def sched_simps length_append_result)

lemma emit_loop_log_bounded:
  "emit_loop n ids data s = Some s' \<Longrightarrow> log_bounded s s'"
proof (induction ids arbitrary: s)
  case Nil
  then show ?case by (simp add: log_bounded_def)
next
  case (Cons tid ids)
  show ?case
  proof (cases "get_task tid s")
    case None
    with Cons show ?thesis by simp
  next
    case (Some task)
    show ?thesis
    proof (cases "enabled task")
      case False
      with Some Cons show ?thesis by simp
    next
      case True
      let ?s0 = "upd_task tid
        (\<lambda>t. t\<lparr>action_params := AList.update ''event_data'' data (action_params t)\<rparr>) s"
      from True Some Cons.prems obtain s1 r where
        e: "execute_task n tid ?s0 = Some (s1, r)" and l: "emit_loop n ids data s1 = Some s'"
        by (auto split: option.splits)
      from execute_task_log_bounded[OF e] Cons.IH[OF l] show ?thesis
        by (simp add: log_bounded_def sched_simps)
    qed
  qed
qed

lemma workflow_loop_log_bounded:
  "workflow_loop n sts cs rs s = Some (s', out) \<Longrightarrow> log_bounded s s'"
proof (induction n arbitrary: cs rs s)
  case 0
  then show ?case by (auto simp add: workflow_loop.simps log_bounded_def split: if_splits)
next
  case (Suc n)
  show ?case
  proof (cases "cs < int (length sts)")
    case False
    with Suc.prems show ?thesis by (simp add: workflow_loop.simps log_bounded_def)
  next
    case True
    note wl = workflow_loop.simps[of "Suc n"]
    show ?thesis
    proof (cases "py_index sts cs")
      case (Inl e)
      with True Suc.prems show ?thesis by (simp add: wl log_bounded_def)
    next
      case (Inr step)
      let ?ex = "case step_task_id step of None \<Rightarrow> Some (s, None)
                 | Some tid \<Rightarrow> execute_task n tid s"
      from True Inr Suc.prems obtain s1 r where ex: "?ex = Some (s1, r)"
        by (auto simp add: wl split: option.splits)
      have b1: "log_bounded s s1"
        using ex execute_task_log_bounded
        by (cases "step_task_id step") (auto simp add: log_bounded_def)
      have "log_bounded s1 s'"
      proof (cases r)
        case None
        with True Inr ex Suc.prems show ?thesis by (simp add: wl log_bounded_def)
      next
        case (Some res)
        show ?thesis
        proof (cases "select_next sts cs
                 (if status res = COMPLETED then on_success step else on_failure step)")
          case None
          with Some True Inr ex Suc.prems show ?thesis by (simp add: wl log_bounded_def)
        next
          case (Some j)
          with \<open>r = Some res\<close> True Inr ex Suc.prems
          have "workflow_loop n sts j (rs @ [res]) s1 = Some (s', out)" by (simp add: wl)
          then show ?thesis by (rule Suc.IH)
        qed
      qed
      with b1 show ?thesis by (simp add: log_bounded_def)
    qed
  qed
qed

text \<open>
  Claim C8. Appending to the result log gives at most 1000 entries: an append that
  would give more leaves the most recent 500, in their order. So a log of at most 1000
  entries has at most 1000 entries after an execution of a task, after \<open>emit_event\<close>
  and after \<open>run_workflow\<close>, whenever these return.
\<close>

theorem result_log_bounded:
  "length (append_result r rs) \<le> 1000
   \<and> (1000 \<le> length rs \<longrightarrow>
        append_result r rs = drop (length (rs @ [r]) - 500) (rs @ [r])
        \<and> length (append_result r rs) = 500)
   \<and> (length rs < 1000 \<longrightarrow> append_result r rs = rs @ [r])
   \<and> (length (results s) \<le> 1000 \<longrightarrow>
        (\<forall>n tid s' res. execute_task n tid s = Some (s', res) \<longrightarrow> length (results s') \<le> 1000)
      \<and> (\<forall>n ev data s'. emit_event n ev data s = Some s' \<longrightarrow> length (results s') \<le> 1000)
      \<and> (\<forall>n wid s' out. run_workflow n wid s = Some (s', out) \<longrightarrow> length (results s') \<le> 1000))"
proof (intro conjI impI allI)
  show "length (append_result r rs) \<le> 1000" by (rule length_append_result)
next
  assume "1000 \<le> length rs"
  then show "append_result r rs = drop (length (rs @ [r]) - 500) (rs @ [r])"
    "length (append_result r rs) = 500"
    by (simp_all add: append_result_def Let_def)
next
  assume "length rs < 1000"
  then show "append_result r rs = rs @ [r]" by (rule append_result_no_overflow)
next
  fix n tid s' res
  assume "length (results s) \<le> 1000" "execute_task n tid s = Some (s', res)"
  then show "length (results s') \<le> 1000"
    using execute_task_log_bounded by (auto simp add: log_bounded_def)
next
  fix n ev data s'
  assume "length (results s) \<le> 1000" "emit_event n ev data s = Some s'"
  then show "length (results s') \<le> 1000"
    using emit_loop_log_bounded by (auto simp add: log_bounded_def emit_event_def)
next
  fix n wid s' out
  assume "length (results s) \<le> 1000" "run_workflow n wid s = Some (s', out)"
  then show "length (results s') \<le> 1000"
    by (cases "map_of (workflows s) wid")
       (auto simp add: run_workflow_def
          dest: workflow_loop_log_bounded[unfolded log_bounded_def])
qed


theorem result_log_bounded_witness:
  "append_result (new_result ''new'' 1) (replicate 1000 (new_result ''old'' 0))
     = replicate 499 (new_result ''old'' 0) @ [new_result ''new'' 1]
   \<and> length (results full_log_sched) = 1000
   \<and> (\<exists>s' res. execute_task 4 ''t'' full_log_sched = Some (s', Some res)
         \<and> length (results s') \<le> 1000)"
proof -
  let ?rs = "replicate 1000 (new_result ''old'' 0)"
  note inst = result_log_bounded[of "new_result ''new'' 1" ?rs full_log_sched]
  have a: "append_result (new_result ''new'' 1) ?rs
             = replicate 499 (new_result ''old'' 0) @ [new_result ''new'' 1]"
    using inst by simp
  have l: "length (results full_log_sched) = 1000"
    by (simp add: full_log_sched_def)
  have g: "get_task ''t'' full_log_sched = Some (new_task ''t'' ''ok'')"
    by (simp add: full_log_sched_def example_sched_def get_task_def)
  have m: "\<not> max_runs_reached (new_task ''t'' ''ok'')"
    by (simp add: max_runs_reached_def new_task_def)
  have d: "deps_settled full_log_sched (dependencies (new_task ''t'' ''ok''))"
    by (simp add: deps_settled_def new_task_def)
  from execute_task_settled_returns[OF g m d, of 0] obtain s' res where
    e: "execute_task 4 ''t'' full_log_sched = Some (s', Some res)"
    by (auto simp add: new_task_def)
  have "length (results full_log_sched) \<le> 1000" using l by simp
  with inst e have "length (results s') \<le> 1000" by blast
  with a l e show ?thesis by blast
qed

subsection \<open>The cap on the number of runs\<close>

text \<open>
  Claim C2, as the code has it. Let a task have \<open>max_runs = N\<close> with \<open>N\<close> not 0.
  A firing that finds \<open>run_count \<ge> N\<close> disables the task and returns no
  \<open>TaskResult\<close>: no handler is called, \<open>run_count\<close> and the result log stay as they
  are. A firing that finds \<open>run_count < N\<close> and no pending dependency returns a
  \<open>TaskResult\<close>, increments \<open>run_count\<close> by one and leaves \<open>enabled\<close> as it is:
  it is not the \<open>N\<close>-th completed firing that clears the flag but the firing after it.
\<close>

theorem max_runs_cap:
  assumes "get_task tid s = Some t" and "max_runs t = Some N" and "N \<noteq> 0"
  shows "(N \<le> run_count t \<longrightarrow>
            execute_task (Suc n) tid s = Some (fst (disable_task tid s), None)
          \<and> get_task tid (fst (disable_task tid s)) = Some (t\<lparr>enabled := False\<rparr>)
          \<and> results (fst (disable_task tid s)) = results s
          \<and> trace (fst (disable_task tid s)) = trace s)
       \<and> (run_count t < N \<and> deps_settled s (dependencies t) \<longrightarrow>
            (\<exists>s' r rc lr.
                execute_task (Suc (nat (retry_count t) + n)) tid s = Some (s', Some r)
              \<and> results s' = append_result r (results s)
              \<and> get_task tid s' =
                  Some (t\<lparr>retry_count := rc, last_run := Some lr,
                          run_count := run_count t + 1\<rparr>)))"
proof (intro conjI impI)
  assume "N \<le> run_count t"
  then have m: "max_runs_reached t" using assms by (simp add: max_runs_reached_def)
  then show "execute_task (Suc n) tid s = Some (fst (disable_task tid s), None)"
    using assms(1) by (simp add: execute_task.simps(2))
  show "get_task tid (fst (disable_task tid s)) = Some (t\<lparr>enabled := False\<rparr>)"
    using assms(1) by (simp add: sched_simps)
  show "results (fst (disable_task tid s)) = results s"
    "trace (fst (disable_task tid s)) = trace s"
    by (simp_all add: sched_simps)
next
  assume a: "run_count t < N \<and> deps_settled s (dependencies t)"
  then have m: "\<not> max_runs_reached t" using assms by (simp add: max_runs_reached_def)
  from execute_task_settled_returns[OF assms(1) m, of n] a
  show "\<exists>s' r rc lr.
          execute_task (Suc (nat (retry_count t) + n)) tid s = Some (s', Some r)
        \<and> results s' = append_result r (results s)
        \<and> get_task tid s' =
            Some (t\<lparr>retry_count := rc, last_run := Some lr, run_count := run_count t + 1\<rparr>)"
    by blast
qed

text \<open>
  Claim C2, as stated, fails: a task with \<open>max_runs = 1\<close> is still enabled after
  its one completed firing, with \<open>run_count = 1\<close>.
\<close>

theorem enabled_after_last_run:
  "map_option (\<lambda>x. (map_option status (snd x),
                     map_option (\<lambda>t. (max_runs t, run_count t, enabled t))
                       (get_task ''once'' (fst x))))
     (execute_task 4 ''once'' (example_sched [(''once'', once_task)]))
   = Some (Some COMPLETED, Some (Some 1, 1, True))"
proof -
  let ?s = "example_sched [(''once'', once_task)]"
  have g: "get_task ''once'' ?s = Some once_task"
    by (simp add: get_task_def example_sched_def)
  have m: "\<not> max_runs_reached once_task"
    by (simp add: max_runs_reached_def once_task_def new_task_def)
  have d: "deps_settled ?s (dependencies once_task)"
    by (simp add: deps_settled_def once_task_def new_task_def)
  have o: "outcome_status ?s once_task = COMPLETED"
    by (simp add: outcome_status_def example_sched_def example_actions_def once_task_def
        new_task_def)
  from execute_task_settled_returns[OF g m d, of 0] o obtain s' r rc lr where
    "execute_task 4 ''once'' ?s = Some (s', Some r)" "status r = COMPLETED"
    "get_task ''once'' s' =
       Some (once_task\<lparr>retry_count := rc, last_run := Some lr, run_count := run_count once_task + 1\<rparr>)"
    by (auto simp add: once_task_def new_task_def)
  then show ?thesis by (simp add: once_task_def new_task_def)
qed

theorem max_runs_cap_witness:
  "(\<exists>s1 r. execute_task 4 ''once'' (example_sched [(''once'', once_task)]) = Some (s1, Some r)
       \<and> map_option run_count (get_task ''once'' s1) = Some 1
       \<and> map_option enabled (get_task ''once'' s1) = Some True
       \<and> (\<exists>s2. execute_task 4 ''once'' s1 = Some (s2, None)
             \<and> map_option run_count (get_task ''once'' s2) = Some 1
             \<and> map_option enabled (get_task ''once'' s2) = Some False
             \<and> results s2 = results s1))"
proof -
  let ?s = "example_sched [(''once'', once_task)]"
  have g: "get_task ''once'' ?s = Some once_task"
    by (simp add: get_task_def example_sched_def)
  have c: "max_runs once_task = Some 1" "(1::int) \<noteq> 0"
    "run_count once_task < 1 \<and> deps_settled ?s (dependencies once_task)"
    by (simp_all add: deps_settled_def once_task_def new_task_def)
  from max_runs_cap[OF g c(1,2), of 0, THEN conjunct2] c(3) obtain s1 r rc lr where
    e1: "execute_task 4 ''once'' ?s = Some (s1, Some r)" and
    g1: "get_task ''once'' s1 =
       Some (once_task\<lparr>retry_count := rc, last_run := Some lr, run_count := run_count once_task + 1\<rparr>)"
    by (auto simp add: once_task_def new_task_def)
  let ?t1 = "once_task\<lparr>retry_count := rc, last_run := Some lr, run_count := run_count once_task + 1\<rparr>"
  have c1: "max_runs ?t1 = Some 1" "1 \<le> run_count ?t1"
    by (simp_all add: once_task_def new_task_def)
  from max_runs_cap[OF g1 c1(1) c(2), of 3, THEN conjunct1] c1(2)
  have e2: "execute_task 4 ''once'' s1 = Some (fst (disable_task ''once'' s1), None)"
    "get_task ''once'' (fst (disable_task ''once'' s1)) = Some (?t1\<lparr>enabled := False\<rparr>)"
    "results (fst (disable_task ''once'' s1)) = results s1"
    by simp_all
  show ?thesis
    apply (rule exI[of _ s1], rule exI[of _ r])
    using e1 g1 e2 by (simp add: once_task_def new_task_def)
qed

subsection \<open>Workflows\<close>

lemma py_index_in_range:
  "0 \<le> i \<Longrightarrow> i < int (length xs) \<Longrightarrow> py_index xs i = Inr (xs ! nat i)"
  by (simp add: py_index_def Let_def)

lemma workflow_loop_end:
  "\<not> cs < int (length sts) \<Longrightarrow> workflow_loop n sts cs rs s = Some (s, Returned rs)"
  by (simp add: workflow_loop.simps)

lemma workflow_loop_step:
  assumes "0 \<le> cs" "cs < int (length sts)" "step_task_id (sts ! nat cs) = Some tid"
    and "execute_task n tid s = Some (s1, Some r)"
  shows "workflow_loop (Suc n) sts cs rs s =
           (case select_next sts cs
                   (if status r = COMPLETED then on_success (sts ! nat cs)
                    else on_failure (sts ! nat cs)) of
              None \<Rightarrow> Some (s1, Returned (rs @ [r]))
            | Some j \<Rightarrow> workflow_loop n sts j (rs @ [r]) s1)"
  using assms by (simp add: workflow_loop.simps[of "Suc n"] py_index_in_range)

lemma workflow_loop_no_result:
  assumes "0 \<le> cs" "cs < int (length sts)" "step_task_id (sts ! nat cs) = Some tid"
    and "execute_task n tid s = Some (s1, None)"
  shows "workflow_loop (Suc n) sts cs rs s =
           Some (s1, Raised (AttributeError ''NoneType object has no attribute status''))"
  using assms by (simp add: workflow_loop.simps[of "Suc n"] py_index_in_range)

lemma find_step_None: "find_step sts x i = None \<longleftrightarrow> (\<forall>st \<in> set sts. step_name st \<noteq> Some x)"
  by (induction sts arbitrary: i) auto

lemma find_step_Some:
  "find_step sts x i = Some j \<Longrightarrow>
     i \<le> j \<and> j - i < length sts \<and> step_name (sts ! (j - i)) = Some x
     \<and> (\<forall>k < j - i. step_name (sts ! k) \<noteq> Some x)"
proof (induction sts arbitrary: i)
  case Nil
  then show ?case by simp
next
  case (Cons st sts)
  show ?case
  proof (cases "step_name st = Some x")
    case True
    with Cons.prems show ?thesis by simp
  next
    case False
    with Cons.prems have f: "find_step sts x (Suc i) = Some j" by simp
    from Cons.IH[OF f] have *: "Suc i \<le> j" "j - Suc i < length sts"
      "step_name (sts ! (j - Suc i)) = Some x"
      "\<forall>k < j - Suc i. step_name (sts ! k) \<noteq> Some x" by auto
    from *(1) have e: "j - i = Suc (j - Suc i)" by simp
    show ?thesis
      using * False unfolding e
      by (auto simp add: nth_Cons less_Suc_eq_0_disj split: nat.splits)
  qed
qed

lemma select_next_name:
  assumes "x \<noteq> ''stop''" "x \<noteq> ''next''"
  shows "select_next sts cs (Some (PStr x)) = map_option int (find_step sts (PStr x) 0)"
  using assms by (simp add: select_next_def)


lemma branch_steps_run:
  assumes w: "map_of (workflows s) wid = Some flow" "steps flow = branch_steps a b"
    and ea: "execute_task (Suc n) a s = Some (s1, Some ra)"
  shows "status ra = COMPLETED \<Longrightarrow> execute_task n b s1 = Some (s2, Some rb) \<Longrightarrow>
           run_workflow (Suc (Suc n)) wid s = Some (s2, Returned [ra, rb])"
    and "status ra \<noteq> COMPLETED \<Longrightarrow>
           run_workflow (Suc (Suc n)) wid s = Some (s1, Returned [ra])"
proof -
  let ?sts = "branch_steps a b"
  have l: "length ?sts = 2" "step_task_id (?sts ! 0) = Some a" "step_task_id (?sts ! 1) = Some b"
    "on_success (?sts ! 0) = Some (PInt 1)" "on_failure (?sts ! 0) = Some (PStr ''stop'')"
    "on_success (?sts ! 1) = Some (PStr ''stop'')" "on_failure (?sts ! 1) = None"
    by (simp_all add: branch_steps_def)
  have r: "run_workflow (Suc (Suc n)) wid s = workflow_loop (Suc (Suc n)) ?sts 0 [] s"
    using w by (simp add: run_workflow_def)
  have first: "workflow_loop (Suc (Suc n)) ?sts 0 [] s =
      (case select_next ?sts 0 (if status ra = COMPLETED then Some (PInt 1) else Some (PStr ''stop'')) of
         None \<Rightarrow> Some (s1, Returned [ra])
       | Some j \<Rightarrow> workflow_loop (Suc n) ?sts j [ra] s1)"
    using workflow_loop_step[of 0 ?sts a "Suc n" s s1 ra "[]"] ea l
    by (simp add: select_next_def)
  show "run_workflow (Suc (Suc n)) wid s = Some (s1, Returned [ra])" if "status ra \<noteq> COMPLETED"
    using that r first by (simp add: select_next_def)
  show "run_workflow (Suc (Suc n)) wid s = Some (s2, Returned [ra, rb])"
    if c: "status ra = COMPLETED" and eb: "execute_task n b s1 = Some (s2, Some rb)"
  proof -
    have "workflow_loop (Suc n) ?sts 1 [ra] s1 =
        (case select_next ?sts 1 (if status rb = COMPLETED then Some (PStr ''stop'') else None) of
           None \<Rightarrow> Some (s2, Returned [ra, rb])
         | Some j \<Rightarrow> workflow_loop n ?sts j [ra, rb] s2)"
      using workflow_loop_step[of 1 ?sts b n s1 s2 rb "[ra]"] eb l
      by (simp add: select_next_def)
    then have "workflow_loop (Suc n) ?sts 1 [ra] s1 = Some (s2, Returned [ra, rb])"
      by (simp add: select_next_def)
    with r first c show ?thesis by (simp add: select_next_def)
  qed
qed

text \<open>
  Claim C4. \<open>run_workflow\<close> runs the loop from step 0 with no results. A step whose
  task yields a \<open>TaskResult\<close> appends it to the results and selects \<open>on_success\<close>
  when its status is \<open>COMPLETED\<close>, \<open>on_failure\<close> otherwise. The selector is read
  so: absent or \<open>stop\<close> ends the workflow; \<open>next\<close> adds one to the step pointer; an
  integer becomes the step pointer; any other string ends the workflow when no step
  has it as its \<open>name\<close>, and otherwise makes the first step of that name the current
  one. For the steps \<open>[A(on_success=1, on_failure="stop"), B(on_success="stop")]\<close>
  the workflow returns the results of \<open>A\<close> and \<open>B\<close> when \<open>A\<close> completes, and the
  result of \<open>A\<close> alone when it does not.
\<close>

theorem workflow_branching:
  "(map_of (workflows s) wid = Some flow \<longrightarrow>
      run_workflow n wid s = workflow_loop n (steps flow) 0 [] s)
   \<and> (0 \<le> cs \<and> cs < int (length sts) \<and> step_task_id (sts ! nat cs) = Some tid
        \<and> execute_task n tid s = Some (s1, Some r) \<longrightarrow>
      workflow_loop (Suc n) sts cs rs s =
        (case select_next sts cs
                (if status r = COMPLETED then on_success (sts ! nat cs)
                 else on_failure (sts ! nat cs)) of
           None \<Rightarrow> Some (s1, Returned (rs @ [r]))
         | Some j \<Rightarrow> workflow_loop n sts j (rs @ [r]) s1))
   \<and> select_next sts cs None = None
   \<and> select_next sts cs (Some (PStr ''stop'')) = None
   \<and> select_next sts cs (Some (PStr ''next'')) = Some (cs + 1)
   \<and> select_next sts cs (Some (PInt i)) = Some i
   \<and> (x \<noteq> ''stop'' \<and> x \<noteq> ''next'' \<longrightarrow>
        (case select_next sts cs (Some (PStr x)) of
           None \<Rightarrow> \<forall>st \<in> set sts. step_name st \<noteq> Some (PStr x)
         | Some j \<Rightarrow>
             0 \<le> j \<and> nat j < length sts \<and> step_name (sts ! nat j) = Some (PStr x)
             \<and> (\<forall>k < nat j. step_name (sts ! k) \<noteq> Some (PStr x))))
   \<and> (map_of (workflows s) wid = Some flow \<and> steps flow = branch_steps a b
        \<and> execute_task (Suc n) a s = Some (s1, Some ra) \<longrightarrow>
        (status ra = COMPLETED \<and> execute_task n b s1 = Some (s2, Some rb) \<longrightarrow>
           run_workflow (Suc (Suc n)) wid s = Some (s2, Returned [ra, rb]))
      \<and> (status ra \<noteq> COMPLETED \<longrightarrow>
           run_workflow (Suc (Suc n)) wid s = Some (s1, Returned [ra])))"
proof (intro conjI impI)
  assume "map_of (workflows s) wid = Some flow"
  then show "run_workflow n wid s = workflow_loop n (steps flow) 0 [] s"
    by (simp add: run_workflow_def)
next
  assume "0 \<le> cs \<and> cs < int (length sts) \<and> step_task_id (sts ! nat cs) = Some tid
        \<and> execute_task n tid s = Some (s1, Some r)"
  then show "workflow_loop (Suc n) sts cs rs s =
        (case select_next sts cs
                (if status r = COMPLETED then on_success (sts ! nat cs)
                 else on_failure (sts ! nat cs)) of
           None \<Rightarrow> Some (s1, Returned (rs @ [r]))
         | Some j \<Rightarrow> workflow_loop n sts j (rs @ [r]) s1)"
    using workflow_loop_step by blast
next
  show "select_next sts cs None = None" "select_next sts cs (Some (PStr ''stop'')) = None"
    "select_next sts cs (Some (PStr ''next'')) = Some (cs + 1)"
    "select_next sts cs (Some (PInt i)) = Some i"
    by (simp_all add: select_next_def)
next
  assume x: "x \<noteq> ''stop'' \<and> x \<noteq> ''next''"
  then have e: "select_next sts cs (Some (PStr x)) = map_option int (find_step sts (PStr x) 0)"
    by (simp add: select_next_name)
  show "case select_next sts cs (Some (PStr x)) of
           None \<Rightarrow> \<forall>st \<in> set sts. step_name st \<noteq> Some (PStr x)
         | Some j \<Rightarrow>
             0 \<le> j \<and> nat j < length sts \<and> step_name (sts ! nat j) = Some (PStr x)
             \<and> (\<forall>k < nat j. step_name (sts ! k) \<noteq> Some (PStr x))"
  proof (cases "find_step sts (PStr x) 0")
    case None
    then show ?thesis using e find_step_None[of sts "PStr x" 0] by simp
  next
    case (Some j)
    from find_step_Some[OF Some] show ?thesis using e Some by simp
  qed
next
  assume "map_of (workflows s) wid = Some flow \<and> steps flow = branch_steps a b
        \<and> execute_task (Suc n) a s = Some (s1, Some ra)"
    and "status ra = COMPLETED \<and> execute_task n b s1 = Some (s2, Some rb)"
  then show "run_workflow (Suc (Suc n)) wid s = Some (s2, Returned [ra, rb])"
    using branch_steps_run(1) by blast
next
  assume "map_of (workflows s) wid = Some flow \<and> steps flow = branch_steps a b
        \<and> execute_task (Suc n) a s = Some (s1, Some ra)"
    and "status ra \<noteq> COMPLETED"
  then show "run_workflow (Suc (Suc n)) wid s = Some (s1, Returned [ra])"
    using branch_steps_run(2) by blast
qed


theorem workflow_branching_witness:
  "(\<exists>s2 ra rb. run_workflow 6 ''w'' (workflow_sched ''ok'') = Some (s2, Returned [ra, rb])
       \<and> (task_id ra, status ra) = (''A'', COMPLETED) \<and> task_id rb = ''B'')
   \<and> (\<exists>s1 ra. run_workflow 6 ''w'' (workflow_sched ''fail'') = Some (s1, Returned [ra])
       \<and> (task_id ra, status ra) = (''A'', FAILED))"
proof -
  have run: "\<exists>s1 ra. execute_task (Suc 4) ''A'' (workflow_sched a) = Some (s1, Some ra)
        \<and> task_id ra = ''A'' \<and> status ra = outcome_status (workflow_sched a) (new_task ''A'' a)
        \<and> (\<exists>s2 rb. execute_task 4 ''B'' s1 = Some (s2, Some rb) \<and> task_id rb = ''B'')" for a
  proof -
    let ?s = "workflow_sched a"
    have g: "get_task ''A'' ?s = Some (new_task ''A'' a)"
      "get_task ''B'' ?s = Some (new_task ''B'' ''ok'')"
      by (simp_all add: workflow_sched_def example_sched_def get_task_def)
    have m: "\<not> max_runs_reached (new_task i c)" for i c
      by (simp add: max_runs_reached_def new_task_def)
    have d: "deps_settled z (dependencies (new_task i c))" for z i c
      by (simp add: deps_settled_def new_task_def)
    from execute_task_settled_returns[OF g(1) m d, of 1] obtain s1 ra where
      ea: "execute_task (Suc 4) ''A'' ?s = Some (s1, Some ra)" "task_id ra = ''A''"
        "status ra = outcome_status ?s (new_task ''A'' a)"
        "\<forall>k. k \<noteq> ''A'' \<longrightarrow> get_task k s1 = get_task k ?s"
      by (auto simp add: new_task_def)
    have gb: "get_task ''B'' s1 = Some (new_task ''B'' ''ok'')" using ea(4) g(2) by simp
    from execute_task_settled_returns[OF gb m d, of 0] obtain s2 rb where
      "execute_task 4 ''B'' s1 = Some (s2, Some rb)" "task_id rb = ''B''"
      by (auto simp add: new_task_def)
    with ea show ?thesis by blast
  qed
  have w: "map_of (workflows (workflow_sched a)) ''w'' = Some branch_workflow"
    "steps branch_workflow = branch_steps ''A'' ''B''" for a
    by (simp_all add: workflow_sched_def example_sched_def branch_workflow_def)
  have o: "outcome_status (workflow_sched ''ok'') (new_task ''A'' ''ok'') = COMPLETED"
    "outcome_status (workflow_sched ''fail'') (new_task ''A'' ''fail'') = FAILED"
    by (simp_all add: outcome_status_def workflow_sched_def example_sched_def
        example_actions_def new_task_def)
  from run[of "''ok''"] o(1) obtain s1 ra s2 rb where
    ok: "execute_task (Suc 4) ''A'' (workflow_sched ''ok'') = Some (s1, Some ra)"
      "task_id ra = ''A''" "status ra = COMPLETED"
      "execute_task 4 ''B'' s1 = Some (s2, Some rb)" "task_id rb = ''B''"
    by auto
  from run[of "''fail''"] o(2) obtain s1' ra' where
    fl: "execute_task (Suc 4) ''A'' (workflow_sched ''fail'') = Some (s1', Some ra')"
      "task_id ra' = ''A''" "status ra' = FAILED"
    by auto
  have "run_workflow (Suc (Suc 4)) ''w'' (workflow_sched ''ok'') = Some (s2, Returned [ra, rb])"
    using workflow_branching[where s = "workflow_sched ''ok''" and wid = "''w''"
        and flow = branch_workflow and a = "''A''" and b = "''B''" and n = 4
        and ?s1.0 = s1 and ra = ra and ?s2.0 = s2 and rb = rb] w ok
    by simp
  moreover
  have "run_workflow (Suc (Suc 4)) ''w'' (workflow_sched ''fail'') = Some (s1', Returned [ra'])"
    using workflow_branching[where s = "workflow_sched ''fail''" and wid = "''w''"
        and flow = branch_workflow and a = "''A''" and b = "''B''" and n = 4
        and ?s1.0 = s1' and ra = ra'] w fl
    by simp
  ultimately show ?thesis using ok fl by simp
qed

subsection \<open>Exceptions that reach the caller\<close>

text \<open>
  Claim C6 fails on \<open>run_workflow\<close>. When a step names a task that is not registered,
  \<open>_execute_task\<close> returns \<open>None\<close> and the access \<open>result.status\<close> raises
  \<open>AttributeError\<close>, which \<open>run_workflow\<close> does not catch: the caller gets the
  exception and no list of results.
\<close>

theorem run_workflow_unknown_task_raises:
  "run_workflow 2 ''w'' ghost_sched
     = Some (ghost_sched, Raised (AttributeError ''NoneType object has no attribute status''))"
proof -
  have g: "get_task ''A'' ghost_sched = None"
    by (simp add: ghost_sched_def example_sched_def get_task_def)
  have e: "execute_task (Suc 0) ''A'' ghost_sched = Some (ghost_sched, None)"
    using g by (simp add: execute_task.simps(2))
  have w: "map_of (workflows ghost_sched) ''w'' = Some branch_workflow"
    by (simp add: ghost_sched_def example_sched_def)
  have l: "(0::int) < int (length (branch_steps ''A'' ''B''))"
    "step_task_id (branch_steps ''A'' ''B'' ! nat 0) = Some ''A''"
    by (simp_all add: branch_steps_def)
  have "workflow_loop (Suc (Suc 0)) (branch_steps ''A'' ''B'') 0 [] ghost_sched
          = Some (ghost_sched, Raised (AttributeError ''NoneType object has no attribute status''))"
    by (rule workflow_loop_no_result[OF _ l e]) simp
  then show ?thesis using w by (simp add: run_workflow_def branch_workflow_def numeral_2_eq_2)
qed

subsection \<open>Events\<close>

lemma deps_settled_evolves:
  assumes "evolves s s'" "deps_settled s ds"
  shows "deps_settled s' ds"
  unfolding deps_settled_def list_all_iff
proof
  fix d assume "d \<in> set ds"
  with assms(2) have a: "case get_task d s of None \<Rightarrow> True | Some dt \<Rightarrow> last_run dt \<noteq> None"
    by (simp add: deps_settled_def list_all_iff)
  from assms(1) have r: "rel_option task_evolves (get_task d s) (get_task d s')"
    by (simp add: evolves_def)
  show "case get_task d s' of None \<Rightarrow> True | Some dt \<Rightarrow> last_run dt \<noteq> None"
    using a r by (cases "get_task d s"; cases "get_task d s'") (auto simp add: task_evolves_def)
qed








subsection \<open>More fuel gives the same run\<close>

text \<open>A run that returns within some fuel returns the same state and result within any
  larger fuel: the fuel decides only whether the run is seen to return.\<close>

lemma run_dependencies_fuel:
  assumes ex: "\<And>tid s x. execute_task n tid s = Some x \<Longrightarrow> execute_task (Suc n) tid s = Some x"
    and run: "run_dependencies n ds s = Some y"
  shows "run_dependencies (Suc n) ds s = Some y"
  using run
proof (induction ds arbitrary: s)
  case Nil
  then show ?case by simp
next
  case (Cons d ds)
  show ?case
  proof (cases "get_task d s")
    case None
    with Cons show ?thesis by simp
  next
    case (Some dt)
    show ?thesis
    proof (cases "last_run dt = None")
      case False
      with Some Cons show ?thesis by auto
    next
      case True
      with Some Cons.prems obtain s1 r where
        e: "execute_task n d s = Some (s1, r)" and r: "run_dependencies n ds s1 = Some y"
        by (auto split: option.splits)
      from ex[OF e] Cons.IH[OF r] Some True show ?thesis by simp
    qed
  qed
qed

lemma perform_action_fuel:
  assumes ex: "\<And>tid s x. execute_task n tid s = Some x \<Longrightarrow> execute_task (Suc n) tid s = Some x"
    and p: "perform_action n tid start s = Some x"
  shows "perform_action (Suc n) tid start s = Some x"
  using p
  by (auto simp add: perform_action.simps[of n] perform_action.simps[of "Suc n"] ex
      split: option.splits sum.splits if_splits)

lemma execute_task_fuel_Suc:
  "execute_task n tid s = Some x \<Longrightarrow> execute_task (Suc n) tid s = Some x"
proof (induction n arbitrary: tid s x)
  case 0
  then show ?case by simp
next
  case (Suc n)
  show ?case
  proof (cases "get_task tid s")
    case None
    with Suc.prems show ?thesis by (simp add: execute_task.simps(2))
  next
    case (Some task)
    show ?thesis
    proof (cases "max_runs_reached task")
      case True
      with Some Suc.prems show ?thesis by (simp add: execute_task.simps(2))
    next
      case False
      with Some Suc.prems obtain s1 where
        d: "run_dependencies n (dependencies task) s = Some s1" and
        p: "perform_action n tid (clock s) s1 = Some x"
        by (auto simp add: execute_task.simps(2) split: option.splits)
      from run_dependencies_fuel[OF Suc.IH d] perform_action_fuel[OF Suc.IH p] Some False
      show ?thesis by (simp add: execute_task.simps(2)[of "Suc n"])
    qed
  qed
qed

lemma execute_task_fuel:
  assumes "n \<le> n'" and "execute_task n tid s = Some x"
  shows "execute_task n' tid s = Some x"
  using assms by (induction rule: dec_induct) (simp_all add: execute_task_fuel_Suc)

subsection \<open>The dependency loop returns\<close>

text \<open>The dependency loop over \<open>[D1, D2]\<close> returns when neither \<open>D1\<close> nor \<open>D2\<close>
  has a pending dependency of its own and the fuel exceeds their retry budgets.\<close>

lemma dependency_loop_returns:
  assumes "get_task D1 s = Some d1" and "last_run d1 = None" and "\<not> max_runs_reached d1"
    and "deps_settled s (dependencies d1)" and "nat (retry_count d1) < n"
    and "get_task D2 s = Some d2" and "last_run d2 = None" and "\<not> max_runs_reached d2"
    and "deps_settled s (dependencies d2)" and "nat (retry_count d2) < n"
  shows "\<exists>s1. run_dependencies n [D1, D2] s = Some s1"
proof -
  define m1 where "m1 = n - Suc (nat (retry_count d1))"
  have n1: "n = Suc (nat (retry_count d1) + m1)" using assms(5) by (simp add: m1_def)
  from execute_task_settled_returns[OF assms(1,3,4), of m1] obtain sa ra rc lr where
    ea: "execute_task n D1 s = Some (sa, Some ra)" and
    oa: "\<forall>k. k \<noteq> D1 \<longrightarrow> get_task k sa = get_task k s" and
    ga: "get_task D1 sa = Some (d1\<lparr>retry_count := rc, last_run := Some lr,
                                   run_count := run_count d1 + 1\<rparr>)"
    unfolding n1[symmetric] by blast
  have first: "run_dependencies n [D1, D2] s = run_dependencies n [D2] sa"
    using assms(1,2) ea by simp
  show ?thesis
  proof (cases "D2 = D1")
    case True
    with ga have "run_dependencies n [D2] sa = Some sa" by simp
    with first show ?thesis by simp
  next
    case False
    with oa assms(6) have g2: "get_task D2 sa = Some d2" by simp
    have d2: "deps_settled sa (dependencies d2)"
      using deps_settled_evolves[OF execute_task_evolves[OF ea] assms(9)] .
    define m2 where "m2 = n - Suc (nat (retry_count d2))"
    have n2: "n = Suc (nat (retry_count d2) + m2)" using assms(10) by (simp add: m2_def)
    from execute_task_settled_returns[OF g2 assms(8) d2, of m2] obtain sb rb where
      "execute_task n D2 sa = Some (sb, Some rb)"
      unfolding n2[symmetric] by blast
    with g2 assms(7) have "run_dependencies n [D2] sa = Some sb" by simp
    with first show ?thesis by simp
  qed
qed

subsection \<open>What a run has executed\<close>

lemma progress_evolves: "progress s s' \<Longrightarrow> evolves s s'"
  by (simp add: progress_def)













text \<open>
  Claim C3, as stated, fails: a registered dependency that has never run and is at its
  cap of runs (here a cap of \<open>-1\<close>, with \<open>run_count = 0\<close>) is disabled and not
  executed. The dependent task \<open>report\<close> completes, so its handler has been called;
  the result log holds the results of \<open>fetch\<close> and \<open>report\<close> and none of
  \<open>blocked\<close>, whose \<open>last_run\<close> is still unset.
\<close>

theorem capped_dependency_not_run:
  "map_option
     (\<lambda>x. (map_option status (snd x), map task_id (results (fst x)),
            map_option (\<lambda>t. (last_run t, run_count t, enabled t)) (get_task ''blocked'' (fst x))))
     (execute_task (Suc 4) ''report'' blocked_sched)
   = Some (Some COMPLETED, [''fetch'', ''report''], Some (None, 0, False))"
proof -
  let ?s = "blocked_sched"
  let ?t = "(new_task ''report'' ''ok'')\<lparr>dependencies := [''blocked'', ''fetch'']\<rparr>"
  let ?b = "(new_task ''blocked'' ''ok'')\<lparr>max_runs := Some (- 1)\<rparr>"
  let ?f = "new_task ''fetch'' ''ok''"
  have g: "get_task ''report'' ?s = Some ?t" "get_task ''blocked'' ?s = Some ?b"
    "get_task ''fetch'' ?s = Some ?f"
    by (simp_all add: blocked_sched_def example_sched_def get_task_def)
  have a: "actions ?s = example_actions" and rs0: "results ?s = []"
    by (simp_all add: blocked_sched_def example_sched_def)
  have mb: "max_runs_reached ?b" by (simp add: max_runs_reached_def new_task_def)
  have mt: "\<not> max_runs_reached ?t" "\<not> max_runs_reached ?f"
    by (simp_all add: max_runs_reached_def new_task_def)
  let ?sa = "fst (disable_task ''blocked'' ?s)"
  have eb: "execute_task (Suc k) ''blocked'' ?s = Some (?sa, None)" for k
    using g(2) mb by (simp add: execute_task.simps(2))
  have ga: "get_task ''report'' ?sa = Some ?t" "get_task ''fetch'' ?sa = Some ?f"
    "get_task ''blocked'' ?sa = Some (?b\<lparr>enabled := False\<rparr>)"
    using g by (simp_all add: sched_simps)
  have fa: "actions ?sa = example_actions" "results ?sa = []"
    using a rs0 by (simp_all add: sched_simps)
  have df: "deps_settled ?sa (dependencies ?f)" by (simp add: deps_settled_def new_task_def)
  from execute_task_settled_returns[OF ga(2) mt(2) df, of 0] obtain sb rf where
    ef: "execute_task (Suc 3) ''fetch'' ?sa = Some (sb, Some rf)" and
    rf: "task_id rf = ''fetch''" and
    ob: "\<forall>k. k \<noteq> ''fetch'' \<longrightarrow> get_task k sb = get_task k ?sa" and
    lb: "results sb = [rf]" and ab: "actions sb = example_actions"
    using fa by (auto simp add: new_task_def append_result_def)
  have gb: "get_task ''report'' sb = Some ?t"
    "get_task ''blocked'' sb = Some (?b\<lparr>enabled := False\<rparr>)"
    using ob ga by simp_all
  have deps: "run_dependencies (Suc 3) [''blocked'', ''fetch''] ?s = Some sb"
    using g(2) eb[of 3] ga(2) ef by (simp add: new_task_def)
  let ?res = "(new_result ''report'' (clock ?s))\<lparr>result := PNone, status := COMPLETED\<rparr>"
  let ?sc = "sb\<lparr>trace := trace sb @ [Invoke ''report'' (action ?t) (action_params ?t)]\<rparr>"
  have pa: "perform_action (Suc 3) ''report'' (clock ?s) sb = Some (finalize ''report'' (clock ?s) ?res ?sc)"
    using gb(1) ab by (simp add: perform_action.simps example_actions_def new_task_def)
  have gc: "get_task ''report'' ?sc = Some ?t" using gb(1) by (simp add: sched_simps)
  from finalize_settled[OF gc refl, of "clock ?s" ?res] obtain s' r where
    f: "finalize ''report'' (clock ?s) ?res ?sc = (s', Some r)" "task_id r = ''report''"
      "status r = COMPLETED"
      "\<forall>k. k \<noteq> ''report'' \<longrightarrow> get_task k s' = get_task k ?sc"
      "results s' = append_result r (results ?sc)"
    by (auto simp add: new_result_def)
  have "execute_task (Suc k) ''report'' ?s = perform_action k ''report'' (clock ?s) sb"
    if "run_dependencies k [''blocked'', ''fetch''] ?s = Some sb" for k
    using g(1) mt(1) that by (simp add: execute_task.simps(2) new_task_def)
  from this[OF deps] have ex: "execute_task (Suc (Suc 3)) ''report'' ?s = Some (s', Some r)"
    using pa f(1) by simp
  have "get_task ''blocked'' s' = Some (?b\<lparr>enabled := False\<rparr>)"
    using f(4) gb(2) by (simp add: sched_simps)
  moreover have "map task_id (results s') = [''fetch'', ''report'']"
    using f(5) lb rf f(2) by (simp add: append_result_def)
  ultimately show ?thesis using ex f(3) by (simp add: new_task_def numeral_eq_Suc)
qed

end
